theory Spec2Isabelle
  imports Main "HOL-Library.Word"
begin

section \<open>Identity resolver (user.go)\<close>

subsection \<open>Errors\<close>

text \<open>
  Go error values. \<open>ErrNoRows\<close> is \<^verbatim>\<open>sql.ErrNoRows\<close>; \<open>ErrUserInActive\<close> and
  \<open>ErrInvalidUserToken\<close> are the two package variables of user.go. \<open>ErrorString s\<close> is an
  error that only has the message \<open>s\<close> (\<^verbatim>\<open>errors.New\<close>, \<^verbatim>\<open>fmt.Errorf\<close> with \<^verbatim>\<open>%v\<close>);
  \<open>WrapError s e\<close> has the message \<open>s\<close> and unwraps to \<open>e\<close> (\<^verbatim>\<open>fmt.Errorf\<close> with \<^verbatim>\<open>%w\<close>).
\<close>

datatype go_error =
    ErrNoRows
  | ErrUserInActive
  | ErrInvalidUserToken
  | ErrorString string
  | WrapError string go_error

fun error_text :: "go_error \<Rightarrow> string" where
  "error_text ErrNoRows = ''sql: no rows in result set''"
| "error_text ErrUserInActive = ''user account is inactive''"
| "error_text ErrInvalidUserToken = ''invalid User Token''"
| "error_text (ErrorString s) = s"
| "error_text (WrapError s e) = s"

text \<open>\<^verbatim>\<open>errors.Is\<close>: equality with the target somewhere along the unwrap chain.\<close>

fun errors_Is :: "go_error \<Rightarrow> go_error \<Rightarrow> bool" where
  "errors_Is (WrapError s e) t = (WrapError s e = t \<or> errors_Is e t)"
| "errors_Is e t = (e = t)"

subsection \<open>Data model\<close>

text \<open>An instant (\<^verbatim>\<open>time.Time\<close>) is an integer; \<open>0\<close> stands for the zero value.\<close>

type_synonym go_time = int

record NullTime =
  Time :: go_time
  Valid :: bool

record Permissions =
  ManageTariff :: bool
  ManagePermits :: bool
  ViewReports :: bool
  ManageLocations :: bool
  ManageUsers :: bool
  ManageContacts :: bool
  ManageCustomerSupport :: bool
  ViewAPI :: bool
  ManageAPI :: bool
  BannedVehicles :: bool
  Marketing :: bool
  ExportData :: bool

text \<open>
  \<open>Locations\<close> is a Go map: \<open>None\<close> is the nil map, \<open>Some f\<close> a map made by \<^verbatim>\<open>make\<close>.
\<close>

record User =
  ID :: int
  Name :: string
  Email :: string
  Active :: bool
  LastLogin :: go_time
  Entered :: go_time
  EnteredBy :: int
  Tkn :: string
  PasswordExpiryDate :: go_time
  Permissions :: Permissions
  ClientId :: int
  Locations :: "(int \<rightharpoonup> string) option"
  UserType :: string

definition zero_NullTime :: NullTime where
  "zero_NullTime = \<lparr>Time = 0, Valid = False\<rparr>"

definition zero_Permissions :: Permissions where
  "zero_Permissions =
     \<lparr>ManageTariff = False, ManagePermits = False, ViewReports = False,
      ManageLocations = False, ManageUsers = False, ManageContacts = False,
      ManageCustomerSupport = False, ViewAPI = False, ManageAPI = False,
      BannedVehicles = False, Marketing = False, ExportData = False\<rparr>"

text \<open>\<^verbatim>\<open>User{}\<close>, the zero value.\<close>

definition zero_User :: User where
  "zero_User =
     \<lparr>ID = 0, Name = [], Email = [], Active = False, LastLogin = 0, Entered = 0,
      EnteredBy = 0, Tkn = [], PasswordExpiryDate = 0, Permissions = zero_Permissions,
      ClientId = 0, Locations = None, UserType = []\<rparr>"

definition all_flags_false :: "Permissions \<Rightarrow> bool" where
  "all_flags_false p \<longleftrightarrow>
     \<not> ManageTariff p \<and> \<not> ManagePermits p \<and> \<not> ViewReports p \<and> \<not> ManageLocations p \<and>
     \<not> ManageUsers p \<and> \<not> ManageContacts p \<and> \<not> ManageCustomerSupport p \<and> \<not> ViewAPI p \<and>
     \<not> ManageAPI p \<and> \<not> BannedVehicles p \<and> \<not> Marketing p \<and> \<not> ExportData p"

subsection \<open>The storage collaborator (database/sql)\<close>

text \<open>
  What the database answers is a parameter of the model. A column of a fetched row is
  either a value that converts to its destination (\<open>Inr v\<close>) or the error that
  \<^verbatim>\<open>Rows.Scan\<close> returns for it (\<open>Inl e\<close>).
\<close>

type_synonym 'a cell = "go_error + 'a"

text \<open>
  The answer to \<^verbatim>\<open>db.QueryRow(...)\<close>: the query failed (\<open>QueryError\<close>, the error is kept
  in the \<^verbatim>\<open>Row\<close> and returned by \<^verbatim>\<open>Scan\<close>), no row matched (\<open>NoRow\<close>, \<^verbatim>\<open>Scan\<close> returns
  \<^verbatim>\<open>sql.ErrNoRows\<close>), or a row with the result of closing the result set afterwards.
\<close>

datatype 'r query_row = QueryError go_error | NoRow | Row 'r "go_error option"

text \<open>The columns of the three SELECT statements, in the order of the statement.\<close>

record user_row =
  c_id :: "int cell"
  c_name :: "string cell"
  c_email :: "string cell"
  c_active :: "bool cell"
  c_last_login :: "go_time option cell"
  c_entered :: "go_time cell"
  c_entered_by :: "int cell"
  c_tkn :: "string cell"
  c_password_expiry :: "go_time option cell"
  c_clientid :: "int cell"
  c_user_type :: "string cell"

record security_row =
  c_manage_tariff :: "bool cell"
  c_manage_permits :: "bool cell"
  c_view_reports :: "bool cell"
  c_manage_locations :: "bool cell"
  c_manage_users :: "bool cell"
  c_manage_contacts :: "bool cell"
  c_manage_customer_support :: "bool cell"
  c_view_api :: "bool cell"
  c_manage_api :: "bool cell"
  c_banned_vehicles :: "bool cell"
  c_marketing :: "bool cell"

text \<open>
  The answer to \<^verbatim>\<open>db.Query\<close> for the location grants: an error, or the rows that
  \<^verbatim>\<open>rows.Next()\<close> delivers, each with the outcome of \<^verbatim>\<open>rows.Scan(&lid, &sn)\<close>.
\<close>

datatype location_rows = QueryFailed go_error | Rows "(int \<times> string) cell list"

record db =
  select_bo_user :: "string \<Rightarrow> user_row query_row"
  select_bo_user_security :: "int \<Rightarrow> security_row query_row"
  select_bo_user_locations :: "int \<Rightarrow> location_rows"
  update_last_login :: "int \<Rightarrow> go_error option"

text \<open>What a call leaves behind: the statements sent to the database and the log lines.\<close>

datatype sql_arg = ArgString string | ArgInt int

datatype event =
    DbQueryRow string "sql_arg list"
  | DbQuery string "sql_arg list"
  | DbExec string "sql_arg list"
  | LogWarn go_error
  | LogError go_error

text \<open>
  \<^verbatim>\<open>Rows.Scan\<close> converts and stores column by column, in the order of the destinations, and
  returns at the first column that fails: the destinations before it are already written.
  A destination is the update it makes to the scanned state.
\<close>

fun scan_dests :: "('s \<Rightarrow> 's) cell list \<Rightarrow> 's \<Rightarrow> 's \<times> go_error option" where
  "scan_dests [] s = (s, None)"
| "scan_dests (Inl e # cs) s = (s, Some e)"
| "scan_dests (Inr f # cs) s = scan_dests cs (f s)"

text \<open>\<^verbatim>\<open>Row.Scan\<close>.\<close>

fun Row_Scan :: "'r query_row \<Rightarrow> ('r \<Rightarrow> ('s \<Rightarrow> 's) cell list) \<Rightarrow> 's \<Rightarrow> 's \<times> go_error option" where
  "Row_Scan (QueryError e) dests s = (s, Some e)"
| "Row_Scan NoRow dests s = (s, Some ErrNoRows)"
| "Row_Scan (Row r cl) dests s =
     (case scan_dests (dests r) s of
        (s', Some e) \<Rightarrow> (s', Some e)
      | (s', None) \<Rightarrow> (s', cl))"

definition dest :: "'a cell \<Rightarrow> ('a \<Rightarrow> 's \<Rightarrow> 's) \<Rightarrow> ('s \<Rightarrow> 's) cell" where
  "dest c store = (case c of Inl e \<Rightarrow> Inl e | Inr v \<Rightarrow> Inr (store v))"

text \<open>\<^verbatim>\<open>NullTime.Scan\<close>: NULL clears the value, anything else sets it and \<open>Valid\<close>.\<close>

definition NullTime_Scan :: "go_time option \<Rightarrow> NullTime" where
  "NullTime_Scan v = (case v of None \<Rightarrow> \<lparr>Time = 0, Valid = False\<rparr> | Some t \<Rightarrow> \<lparr>Time = t, Valid = True\<rparr>)"

subsection \<open>User.Get and GetUser\<close>

definition sql_bo_user :: string where
  "sql_bo_user = ''SELECT id, name, email, active, last_login, entered, entered_by, tkn,password_expiry,clientid,user_type FROM bo_user WHERE tkn=?''"

definition sql_bo_user_security :: string where
  "sql_bo_user_security = ''SELECT manage_tariff, manage_permits, view_reports, manage_locations, manage_users, manage_contacts, manage_customer_support, view_api, manage_api,banned_vehicles,marketing FROM bo_user_security WHERE usrid=?''"

definition sql_bo_user_locations :: string where
  "sql_bo_user_locations =
     ''SELECT locationid,coalesce((SELECT sitename FROM locations WHERE code=locationid),''
     @ [CHR 0x27, CHR 0x27]
     @ '') sitename FROM bo_user_locations WHERE locationid>0 and userid=?''"

definition sql_last_login :: string where
  "sql_last_login = ''UPDATE bo_user SET last_login=NOW() WHERE id=?''"

text \<open>
  The destinations of the first \<^verbatim>\<open>Scan\<close>: fields of \<open>m\<close> and the two locals
  \<open>lastLogin\<close> and \<open>passwordExpiry\<close>.
\<close>

definition user_dests :: "user_row \<Rightarrow> (User \<times> NullTime \<times> NullTime \<Rightarrow> User \<times> NullTime \<times> NullTime) cell list" where
  "user_dests r =
     [dest (c_id r) (\<lambda>v (m, ll, pe). (m\<lparr>ID := v\<rparr>, ll, pe)),
      dest (c_name r) (\<lambda>v (m, ll, pe). (m\<lparr>Name := v\<rparr>, ll, pe)),
      dest (c_email r) (\<lambda>v (m, ll, pe). (m\<lparr>Email := v\<rparr>, ll, pe)),
      dest (c_active r) (\<lambda>v (m, ll, pe). (m\<lparr>Active := v\<rparr>, ll, pe)),
      dest (c_last_login r) (\<lambda>v (m, ll, pe). (m, NullTime_Scan v, pe)),
      dest (c_entered r) (\<lambda>v (m, ll, pe). (m\<lparr>Entered := v\<rparr>, ll, pe)),
      dest (c_entered_by r) (\<lambda>v (m, ll, pe). (m\<lparr>EnteredBy := v\<rparr>, ll, pe)),
      dest (c_tkn r) (\<lambda>v (m, ll, pe). (m\<lparr>Tkn := v\<rparr>, ll, pe)),
      dest (c_password_expiry r) (\<lambda>v (m, ll, pe). (m, ll, NullTime_Scan v)),
      dest (c_clientid r) (\<lambda>v (m, ll, pe). (m\<lparr>ClientId := v\<rparr>, ll, pe)),
      dest (c_user_type r) (\<lambda>v (m, ll, pe). (m\<lparr>UserType := v\<rparr>, ll, pe))]"

text \<open>The destinations of the second \<^verbatim>\<open>Scan\<close>: eleven fields of \<open>m.Permissions\<close>.\<close>

definition perm :: "(Permissions \<Rightarrow> Permissions) \<Rightarrow> User \<Rightarrow> User" where
  "perm f m = m\<lparr>Permissions := f (Permissions m)\<rparr>"

definition security_dests :: "security_row \<Rightarrow> (User \<Rightarrow> User) cell list" where
  "security_dests r =
     [dest (c_manage_tariff r) (\<lambda>v. perm (\<lambda>p. p\<lparr>ManageTariff := v\<rparr>)),
      dest (c_manage_permits r) (\<lambda>v. perm (\<lambda>p. p\<lparr>ManagePermits := v\<rparr>)),
      dest (c_view_reports r) (\<lambda>v. perm (\<lambda>p. p\<lparr>ViewReports := v\<rparr>)),
      dest (c_manage_locations r) (\<lambda>v. perm (\<lambda>p. p\<lparr>ManageLocations := v\<rparr>)),
      dest (c_manage_users r) (\<lambda>v. perm (\<lambda>p. p\<lparr>ManageUsers := v\<rparr>)),
      dest (c_manage_contacts r) (\<lambda>v. perm (\<lambda>p. p\<lparr>ManageContacts := v\<rparr>)),
      dest (c_manage_customer_support r) (\<lambda>v. perm (\<lambda>p. p\<lparr>ManageCustomerSupport := v\<rparr>)),
      dest (c_view_api r) (\<lambda>v. perm (\<lambda>p. p\<lparr>ViewAPI := v\<rparr>)),
      dest (c_manage_api r) (\<lambda>v. perm (\<lambda>p. p\<lparr>ManageAPI := v\<rparr>)),
      dest (c_banned_vehicles r) (\<lambda>v. perm (\<lambda>p. p\<lparr>BannedVehicles := v\<rparr>)),
      dest (c_marketing r) (\<lambda>v. perm (\<lambda>p. p\<lparr>Marketing := v\<rparr>))]"

text \<open>
  The loop \<^verbatim>\<open>for rows.Next() { ... }\<close> over the location rows: a row that scans is stored
  in the map, a row that does not is logged and skipped.
\<close>

fun scan_locations :: "(int \<times> string) cell list \<Rightarrow> (int \<rightharpoonup> string) \<Rightarrow> (int \<rightharpoonup> string) \<times> event list" where
  "scan_locations [] locs = (locs, [])"
| "scan_locations (Inl e # rs) locs =
     (case scan_locations rs locs of (locs', ev) \<Rightarrow> (locs', LogWarn e # ev))"
| "scan_locations (Inr (lid, sn) # rs) locs = scan_locations rs (locs(lid \<mapsto> sn))"

text \<open>
  The three blocks of \<open>Get\<close> after the active check, as the source marks them off.
  Each takes the user as it stands and returns it with the events of the block.

  User Permissions: the second \<^verbatim>\<open>QueryRow(...).Scan(...)\<close>; an error is logged and dropped.
\<close>

definition load_permissions :: "db \<Rightarrow> User \<Rightarrow> User \<times> event list" where
  "load_permissions d m =
     (case Row_Scan (select_bo_user_security d (ID m)) security_dests m of
        (m', err) \<Rightarrow>
          (m', DbQueryRow sql_bo_user_security [ArgInt (ID m)]
                 # (case err of Some e \<Rightarrow> [LogWarn e] | None \<Rightarrow> [])))"

text \<open>
  User Locations: \<^verbatim>\<open>m.Locations = make(map[int]string, 0)\<close>, then the query and the loop.
\<close>

definition load_locations :: "db \<Rightarrow> User \<Rightarrow> User \<times> event list" where
  "load_locations d m =
     (let m = m\<lparr>Locations := Some Map.empty\<rparr> in
      case select_bo_user_locations d (ID m) of
        QueryFailed e \<Rightarrow>
          (m, DbQuery sql_bo_user_locations [ArgInt (ID m)]
                # (if \<not> errors_Is e ErrNoRows then [LogError e] else []))
      | Rows rs \<Rightarrow>
          (case scan_locations rs Map.empty of
             (locs, ev) \<Rightarrow>
               (m\<lparr>Locations := Some locs\<rparr>, DbQuery sql_bo_user_locations [ArgInt (ID m)] # ev)))"

text \<open>The last-login stamp: \<^verbatim>\<open>db.Exec\<close>; an error is logged and dropped.\<close>

definition stamp_last_login :: "db \<Rightarrow> User \<Rightarrow> event list" where
  "stamp_last_login d m =
     DbExec sql_last_login [ArgInt (ID m)]
       # (case update_last_login d (ID m) of Some e \<Rightarrow> [LogWarn e] | None \<Rightarrow> [])"

text \<open>
  \<^verbatim>\<open>func (m *User) Get(userTkn string, db *sql.DB) error\<close>. The receiver is passed in and
  returned as the method leaves it, next to the error (\<open>None\<close> is \<^verbatim>\<open>nil\<close>) and the events.
\<close>

definition Get :: "db \<Rightarrow> string \<Rightarrow> User \<Rightarrow> (User \<times> go_error option) \<times> event list" where
  "Get d userTkn m0 =
     (case Row_Scan (select_bo_user d userTkn) user_dests (m0, zero_NullTime, zero_NullTime) of
        ((m, lastLogin, passwordExpiry), err) \<Rightarrow>
     let ev1 = [DbQueryRow sql_bo_user [ArgString userTkn]] in
     (case err of
        Some e \<Rightarrow>
          if errors_Is e ErrNoRows then ((m, Some ErrInvalidUserToken), ev1)
          else ((m, Some (ErrorString
                  (''there was an unexpected error reading from the database: '' @ error_text e))), ev1)
      | None \<Rightarrow>
          if \<not> Active m then ((m, Some ErrUserInActive), ev1)
          else
            let m = (if Valid lastLogin then m\<lparr>LastLogin := Time lastLogin\<rparr> else m);
                m = (if Valid passwordExpiry then m\<lparr>PasswordExpiryDate := Time passwordExpiry\<rparr> else m);
                (m, ev2) = load_permissions d m;
                (m, ev3) = load_locations d m;
                ev4 = stamp_last_login d m
            in ((m, None), ev1 @ ev2 @ ev3 @ ev4)))"

text \<open>\<^verbatim>\<open>func GetUser(userTkn string, db *sql.DB) (User, error)\<close>.\<close>

definition GetUser :: "db \<Rightarrow> string \<Rightarrow> (User \<times> go_error option) \<times> event list" where
  "GetUser d userTkn = Get d userTkn zero_User"

text \<open>The user after the two nullable instants have been copied in.\<close>

definition after_gate :: "User \<Rightarrow> NullTime \<Rightarrow> NullTime \<Rightarrow> User" where
  "after_gate m ll pe =
     (let m = (if Valid ll then m\<lparr>LastLogin := Time ll\<rparr> else m)
      in if Valid pe then m\<lparr>PasswordExpiryDate := Time pe\<rparr> else m)"

text \<open>Reading the three parts of what \<open>Get\<close> and \<open>GetUser\<close> return.\<close>

definition ret_user :: "(User \<times> go_error option) \<times> event list \<Rightarrow> User" where
  "ret_user r = fst (fst r)"

definition ret_err :: "(User \<times> go_error option) \<times> event list \<Rightarrow> go_error option" where
  "ret_err r = snd (fst r)"

definition ret_events :: "(User \<times> go_error option) \<times> event list \<Rightarrow> event list" where
  "ret_events r = snd r"

text \<open>The location rows that scanned, as key and value pairs in the order of the result set.\<close>

fun scanned_rows :: "(int \<times> string) cell list \<Rightarrow> (int \<times> string) list" where
  "scanned_rows [] = []"
| "scanned_rows (Inl e # rs) = scanned_rows rs"
| "scanned_rows (Inr kv # rs) = kv # scanned_rows rs"

subsection \<open>A concrete database\<close>

text \<open>
  The scenario of the specification: subject \<open>u-42\<close>, an active user row, a permission row
  with only \<open>manage_users\<close> set, and two location grants, one without a site name.
\<close>

definition demo_user_row :: user_row where
  "demo_user_row =
     \<lparr>c_id = Inr 42, c_name = Inr ''Ann'', c_email = Inr ''ann@example.org'',
      c_active = Inr True, c_last_login = Inr (Some 1700000000), c_entered = Inr 1600000000,
      c_entered_by = Inr 1, c_tkn = Inr ''u-42'', c_password_expiry = Inr None,
      c_clientid = Inr 3, c_user_type = Inr ''admin''\<rparr>"

definition demo_security_row :: security_row where
  "demo_security_row =
     \<lparr>c_manage_tariff = Inr False, c_manage_permits = Inr False, c_view_reports = Inr False,
      c_manage_locations = Inr False, c_manage_users = Inr True, c_manage_contacts = Inr False,
      c_manage_customer_support = Inr False, c_view_api = Inr False, c_manage_api = Inr False,
      c_banned_vehicles = Inr False, c_marketing = Inr False\<rparr>"

definition demo_db :: db where
  "demo_db =
     \<lparr>select_bo_user = (\<lambda>t. if t = ''u-42'' then Row demo_user_row None else NoRow),
      select_bo_user_security = (\<lambda>i. if i = 42 then Row demo_security_row None else NoRow),
      select_bo_user_locations =
        (\<lambda>i. if i = 42 then Rows [Inr (7, ''North Depot''), Inr (12, [])] else Rows []),
      update_last_login = (\<lambda>i. None)\<rparr>"

text \<open>The same account, deactivated.\<close>

definition demo_db_inactive :: db where
  "demo_db_inactive =
     demo_db\<lparr>select_bo_user := (\<lambda>t. Row (demo_user_row\<lparr>c_active := Inr False\<rparr>) None)\<rparr>"

text \<open>A database that is down: every statement fails.\<close>

definition conn_refused :: go_error where
  "conn_refused = ErrorString ''dial tcp 127.0.0.1:3306: connect: connection refused''"

definition demo_db_down :: db where
  "demo_db_down =
     \<lparr>select_bo_user = (\<lambda>t. QueryError conn_refused),
      select_bo_user_security = (\<lambda>i. QueryError conn_refused),
      select_bo_user_locations = (\<lambda>i. QueryFailed conn_refused),
      update_last_login = (\<lambda>i. Some conn_refused)\<rparr>"

text \<open>
  A permission row whose second column is NULL: \<^verbatim>\<open>Scan\<close> stores \<open>manage_tariff\<close> and then
  fails on \<open>manage_permits\<close>.
\<close>

definition null_to_bool :: go_error where
  "null_to_bool = WrapError
     (''sql: Scan error on column index 1, name '' @ [CHR 0x22] @ ''manage_permits'' @ [CHR 0x22]
        @ '': sql/driver: couldn't convert <nil> (<nil>) into type bool'')
     (ErrorString ''sql/driver: couldn't convert <nil> (<nil>) into type bool'')"

definition demo_db_null_flag :: db where
  "demo_db_null_flag =
     demo_db\<lparr>select_bo_user_security :=
       (\<lambda>i. Row (demo_security_row\<lparr>c_manage_tariff := Inr True, c_manage_permits := Inl null_to_bool\<rparr>) None)\<rparr>"

text \<open>What \<open>GetUser\<close> hands back for the deactivated account: the scanned fields, nothing else.\<close>

definition demo_inactive_user :: User where
  "demo_inactive_user =
     zero_User\<lparr>ID := 42, Name := ''Ann'', Email := ''ann@example.org'', Entered := 1600000000,
               EnteredBy := 1, Tkn := ''u-42'', ClientId := 3, UserType := ''admin''\<rparr>"

text \<open>A destination that leaves the observation \<open>P\<close> of the scanned state alone.\<close>

definition cell_keeps :: "('s \<Rightarrow> 'a) \<Rightarrow> ('s \<Rightarrow> 's) cell \<Rightarrow> bool" where
  "cell_keeps P c = (case c of Inl e \<Rightarrow> True | Inr f \<Rightarrow> \<forall>s. P (f s) = P s)"

text \<open>
  The same permission row with \<open>manage_tariff\<close> false: \<^verbatim>\<open>Scan\<close> fails on \<open>manage_permits\<close>
  after it has stored only a false flag.
\<close>

definition demo_db_null_later :: db where
  "demo_db_null_later =
     demo_db\<lparr>select_bo_user_security :=
       (\<lambda>i. Row (demo_security_row\<lparr>c_manage_users := Inr False, c_manage_permits := Inl null_to_bool\<rparr>) None)\<rparr>"

text \<open>
  Whether \<^verbatim>\<open>Scan\<close> stores a true flag: a cell that converts to true before the first cell
  that fails. \<open>security_cells\<close> are the eleven columns in the order of the statement.
\<close>

primrec stored_true :: "bool cell list \<Rightarrow> bool" where
  "stored_true [] = False"
| "stored_true (c # cs) = (case c of Inl e \<Rightarrow> False | Inr v \<Rightarrow> v \<or> stored_true cs)"

definition security_cells :: "security_row \<Rightarrow> bool cell list" where
  "security_cells r =
     [c_manage_tariff r, c_manage_permits r, c_view_reports r, c_manage_locations r,
      c_manage_users r, c_manage_contacts r, c_manage_customer_support r, c_view_api r,
      c_manage_api r, c_banned_vehicles r, c_marketing r]"

definition lookup_stored_true :: "security_row query_row \<Rightarrow> bool" where
  "lookup_stored_true q = (case q of Row r cl \<Rightarrow> stored_true (security_cells r) | _ \<Rightarrow> False)"

section \<open>Credential codec: the libraries it calls\<close>

subsection \<open>Base64 segments (encoding/base64, jwt.EncodeSegment and jwt.DecodeSegment)\<close>

definition encodeURL :: string where
  "encodeURL = ''ABCDEFGHIJKLMNOPQRSTUVWXYZabcdefghijklmnopqrstuvwxyz0123456789-_''"

definition enc_char :: "nat \<Rightarrow> char" where
  "enc_char v = encodeURL ! v"

definition decodeMap :: "char \<Rightarrow> nat option" where
  "decodeMap c = map_of (zip encodeURL [0..<64]) c"

definition byte :: "char \<Rightarrow> nat" where
  "byte c = of_char c"

fun EncodeToString :: "string \<Rightarrow> string" where
  "EncodeToString (a # b # c # rest) =
     enc_char (byte a div 4)
     # enc_char ((byte a mod 4) * 16 + byte b div 16)
     # enc_char ((byte b mod 16) * 4 + byte c div 64)
     # enc_char (byte c mod 64)
     # EncodeToString rest"
| "EncodeToString [a, b] =
     [enc_char (byte a div 4),
      enc_char ((byte a mod 4) * 16 + byte b div 16),
      enc_char ((byte b mod 16) * 4),
      CHR ''='']"
| "EncodeToString [a] =
     [enc_char (byte a div 4),
      enc_char ((byte a mod 4) * 16),
      CHR ''='', CHR ''='']"
| "EncodeToString [] = []"

definition TrimRight :: "string \<Rightarrow> char \<Rightarrow> string" where
  "TrimRight s c = rev (dropWhile (\<lambda>x. x = c) (rev s))"

definition EncodeSegment :: "string \<Rightarrow> string" where
  "EncodeSegment seg = TrimRight (EncodeToString seg) (CHR ''='')"

definition is_newline :: "char \<Rightarrow> bool" where
  "is_newline c \<longleftrightarrow> c = CHR 0x0A \<or> c = CHR 0x0D"

definition quantum_bytes :: "nat list \<Rightarrow> nat \<Rightarrow> string" where
  "quantum_bytes dbuf dlen =
     (let d = dbuf @ replicate (4 - length dbuf) 0;
          val = (d ! 0) * 262144 + (d ! 1) * 4096 + (d ! 2) * 64 + (d ! 3)
      in take (dlen - 1)
           [char_of (val div 65536), char_of (val div 256), char_of val])"

fun decode_quanta :: "string \<Rightarrow> nat list \<Rightarrow> string option" where
  "decode_quanta [] dbuf = (if dbuf = [] then Some [] else None)"
| "decode_quanta (c # src) dbuf =
     (case decodeMap c of
        Some v \<Rightarrow>
          if length dbuf = 3
          then map_option (\<lambda>out. quantum_bytes (dbuf @ [v]) 4 @ out) (decode_quanta src [])
          else decode_quanta src (dbuf @ [v])
      | None \<Rightarrow>
          if is_newline c then decode_quanta src dbuf
          else if c \<noteq> CHR ''='' then None
          else if length dbuf < 2 then None
          else if length dbuf = 2 then
            (let r = dropWhile is_newline src in
             if r = [] then None
             else if hd r \<noteq> CHR ''='' then None
             else if dropWhile is_newline (tl r) \<noteq> [] then None
             else Some (quantum_bytes dbuf 2))
          else
            (if dropWhile is_newline src \<noteq> [] then None
             else Some (quantum_bytes dbuf 3)))"

definition DecodeString :: "string \<Rightarrow> string option" where
  "DecodeString s = decode_quanta s []"

definition DecodeSegment :: "string \<Rightarrow> string option" where
  "DecodeSegment seg =
     (let l = length seg mod 4
      in DecodeString (if l > 0 then seg @ replicate (4 - l) (CHR ''='') else seg))"

subsection \<open>SHA-256 (crypto/sha256)\<close>

unbundle bit_operations_syntax

type_synonym u32 = "32 word"

text \<open>
  The round constants and the initial hash value of FIPS 180-4 (the first 32 bits of the
  fractional parts of the cube roots and of the square roots of the first primes), in
  decimal.
\<close>

definition K256 :: "u32 list" where
  "K256 =
     [1116352408, 1899447441, 3049323471, 3921009573, 961987163, 1508970993,
      2453635748, 2870763221, 3624381080, 310598401, 607225278, 1426881987,
      1925078388, 2162078206, 2614888103, 3248222580, 3835390401, 4022224774,
      264347078, 604807628, 770255983, 1249150122, 1555081692, 1996064986,
      2554220882, 2821834349, 2952996808, 3210313671, 3336571891, 3584528711,
      113926993, 338241895, 666307205, 773529912, 1294757372, 1396182291,
      1695183700, 1986661051, 2177026350, 2456956037, 2730485921, 2820302411,
      3259730800, 3345764771, 3516065817, 3600352804, 4094571909, 275423344,
      430227734, 506948616, 659060556, 883997877, 958139571, 1322822218,
      1537002063, 1747873779, 1955562222, 2024104815, 2227730452, 2361852424,
      2428436474, 2756734187, 3204031479, 3329325298]"

definition H256 :: "u32 list" where
  "H256 =
     [1779033703, 3144134277, 1013904242, 2773480762, 1359893119, 2600822924,
      528734635, 1541459225]"

definition rotr :: "nat \<Rightarrow> u32 \<Rightarrow> u32" where
  "rotr n x = (drop_bit n x) OR (push_bit (32 - n) x)"

definition Ch :: "u32 \<Rightarrow> u32 \<Rightarrow> u32 \<Rightarrow> u32" where
  "Ch x y z = (x AND y) XOR (NOT x AND z)"

definition Maj :: "u32 \<Rightarrow> u32 \<Rightarrow> u32 \<Rightarrow> u32" where
  "Maj x y z = (x AND y) XOR (x AND z) XOR (y AND z)"

definition bsig0 :: "u32 \<Rightarrow> u32" where
  "bsig0 x = rotr 2 x XOR rotr 13 x XOR rotr 22 x"

definition bsig1 :: "u32 \<Rightarrow> u32" where
  "bsig1 x = rotr 6 x XOR rotr 11 x XOR rotr 25 x"

definition ssig0 :: "u32 \<Rightarrow> u32" where
  "ssig0 x = rotr 7 x XOR rotr 18 x XOR drop_bit 3 x"

definition ssig1 :: "u32 \<Rightarrow> u32" where
  "ssig1 x = rotr 17 x XOR rotr 19 x XOR drop_bit 10 x"

definition be32 :: "string \<Rightarrow> u32" where
  "be32 bs = foldl (\<lambda>w c. push_bit 8 w + of_nat (byte c)) 0 bs"

definition bytes_of_nat :: "nat \<Rightarrow> nat \<Rightarrow> string" where
  "bytes_of_nat n v = map (\<lambda>i. char_of (v div 256 ^ (n - 1 - i))) [0..<n]"

definition u32_bytes :: "u32 \<Rightarrow> string" where
  "u32_bytes w = bytes_of_nat 4 (unat w)"

fun chunks :: "nat \<Rightarrow> nat \<Rightarrow> 'a list \<Rightarrow> 'a list list" where
  "chunks 0 n xs = []"
| "chunks (Suc k) n xs = take n xs # chunks k n (drop n xs)"

definition pad_message :: "string \<Rightarrow> string" where
  "pad_message m =
     m @ [CHR 0x80] @ replicate ((119 - length m mod 64) mod 64) (CHR 0x00)
       @ bytes_of_nat 8 (8 * length m)"

definition schedule :: "u32 list \<Rightarrow> u32 list" where
  "schedule w16 =
     fold (\<lambda>t w. w @ [ssig1 (w ! (t - 2)) + w ! (t - 7) + ssig0 (w ! (t - 15)) + w ! (t - 16)])
       [16..<64] w16"

fun round_step :: "u32 \<times> u32 \<Rightarrow> u32 list \<Rightarrow> u32 list" where
  "round_step (k, w) [a, b, c, d, e, f, g, h] =
     (let t1 = h + bsig1 e + Ch e f g + k + w;
          t2 = bsig0 a + Maj a b c
      in [t1 + t2, a, b, c, d + t1, e, f, g])"
| "round_step kw s = s"

definition compress :: "string \<Rightarrow> u32 list \<Rightarrow> u32 list" where
  "compress block hs =
     map2 (+) hs (fold round_step (zip K256 (schedule (map be32 (chunks 16 4 block)))) hs)"

definition sha256 :: "string \<Rightarrow> string" where
  "sha256 m =
     (let p = pad_message m
      in concat (map u32_bytes (fold compress (chunks (length p div 64) 64 p) H256)))"

definition xor_byte :: "nat \<Rightarrow> char \<Rightarrow> char" where
  "xor_byte k c = char_of (k XOR byte c)"

subsection \<open>SHA-384, SHA-512 and HMAC (crypto/sha512, crypto/hmac)\<close>

type_synonym u64 = "64 word"

definition K512 :: "u64 list" where
  "K512 =
     [4794697086780616226, 8158064640168781261, 13096744586834688815, 16840607885511220156,
      4131703408338449720, 6480981068601479193, 10538285296894168987, 12329834152419229976,
      15566598209576043074, 1334009975649890238, 2608012711638119052, 6128411473006802146,
      8268148722764581231, 9286055187155687089, 11230858885718282805, 13951009754708518548,
      16472876342353939154, 17275323862435702243, 1135362057144423861, 2597628984639134821,
      3308224258029322869, 5365058923640841347, 6679025012923562964, 8573033837759648693,
      10970295158949994411, 12119686244451234320, 12683024718118986047, 13788192230050041572,
      14330467153632333762, 15395433587784984357, 489312712824947311, 1452737877330783856,
      2861767655752347644, 3322285676063803686, 5560940570517711597, 5996557281743188959,
      7280758554555802590, 8532644243296465576, 9350256976987008742, 10552545826968843579,
      11727347734174303076, 12113106623233404929, 14000437183269869457, 14369950271660146224,
      15101387698204529176, 15463397548674623760, 17586052441742319658, 1182934255886127544,
      1847814050463011016, 2177327727835720531, 2830643537854262169, 3796741975233480872,
      4115178125766777443, 5681478168544905931, 6601373596472566643, 7507060721942968483,
      8399075790359081724, 8693463985226723168, 9568029438360202098, 10144078919501101548,
      10430055236837252648, 11840083180663258601, 13761210420658862357, 14299343276471374635,
      14566680578165727644, 15097957966210449927, 16922976911328602910, 17689382322260857208,
      500013540394364858, 748580250866718886, 1242879168328830382, 1977374033974150939,
      2944078676154940804, 3659926193048069267, 4368137639120453308, 4836135668995329356,
      5532061633213252278, 6448918945643986474, 6902733635092675308, 7801388544844847127]"

definition H512 :: "u64 list" where
  "H512 =
     [7640891576956012808, 13503953896175478587, 4354685564936845355, 11912009170470909681,
      5840696475078001361, 11170449401992604703, 2270897969802886507, 6620516959819538809]"

definition H384 :: "u64 list" where
  "H384 =
     [14680500436340154072, 7105036623409894663, 10473403895298186519, 1526699215303891257,
      7436329637833083697, 10282925794625328401, 15784041429090275239, 5167115440072839076]"

definition rotr64 :: "nat \<Rightarrow> u64 \<Rightarrow> u64" where
  "rotr64 n x = (drop_bit n x) OR (push_bit (64 - n) x)"

definition Ch64 :: "u64 \<Rightarrow> u64 \<Rightarrow> u64 \<Rightarrow> u64" where
  "Ch64 x y z = (x AND y) XOR (NOT x AND z)"

definition Maj64 :: "u64 \<Rightarrow> u64 \<Rightarrow> u64 \<Rightarrow> u64" where
  "Maj64 x y z = (x AND y) XOR (x AND z) XOR (y AND z)"

definition bsig0_64 :: "u64 \<Rightarrow> u64" where
  "bsig0_64 x = rotr64 28 x XOR rotr64 34 x XOR rotr64 39 x"

definition bsig1_64 :: "u64 \<Rightarrow> u64" where
  "bsig1_64 x = rotr64 14 x XOR rotr64 18 x XOR rotr64 41 x"

definition ssig0_64 :: "u64 \<Rightarrow> u64" where
  "ssig0_64 x = rotr64 1 x XOR rotr64 8 x XOR drop_bit 7 x"

definition ssig1_64 :: "u64 \<Rightarrow> u64" where
  "ssig1_64 x = rotr64 19 x XOR rotr64 61 x XOR drop_bit 6 x"

definition be64 :: "string \<Rightarrow> u64" where
  "be64 bs = foldl (\<lambda>w c. push_bit 8 w + of_nat (byte c)) 0 bs"

definition u64_bytes :: "u64 \<Rightarrow> string" where
  "u64_bytes w = bytes_of_nat 8 (unat w)"

definition pad_message512 :: "string \<Rightarrow> string" where
  "pad_message512 m =
     m @ [CHR 0x80] @ replicate ((239 - length m mod 128) mod 128) (CHR 0x00)
       @ bytes_of_nat 16 (8 * length m)"

definition schedule512 :: "u64 list \<Rightarrow> u64 list" where
  "schedule512 w16 =
     fold (\<lambda>t w. w @ [ssig1_64 (w ! (t - 2)) + w ! (t - 7) + ssig0_64 (w ! (t - 15)) + w ! (t - 16)])
       [16..<80] w16"

fun round_step512 :: "u64 \<times> u64 \<Rightarrow> u64 list \<Rightarrow> u64 list" where
  "round_step512 (k, w) [a, b, c, d, e, f, g, h] =
     (let t1 = h + bsig1_64 e + Ch64 e f g + k + w;
          t2 = bsig0_64 a + Maj64 a b c
      in [t1 + t2, a, b, c, d + t1, e, f, g])"
| "round_step512 kw s = s"

definition compress512 :: "string \<Rightarrow> u64 list \<Rightarrow> u64 list" where
  "compress512 block hs =
     map2 (+) hs (fold round_step512 (zip K512 (schedule512 (map be64 (chunks 16 8 block)))) hs)"

definition sha512_state :: "u64 list \<Rightarrow> string \<Rightarrow> string" where
  "sha512_state iv m =
     (let p = pad_message512 m
      in concat (map u64_bytes (fold compress512 (chunks (length p div 128) 128 p) iv)))"

definition sha512 :: "string \<Rightarrow> string" where
  "sha512 m = sha512_state H512 m"

definition sha384 :: "string \<Rightarrow> string" where
  "sha384 m = take 48 (sha512_state H384 m)"

text \<open>\<^verbatim>\<open>crypto/hmac\<close> over a hash with the given block size.\<close>

definition hmac :: "(string \<Rightarrow> string) \<Rightarrow> nat \<Rightarrow> string \<Rightarrow> string \<Rightarrow> string" where
  "hmac h bsize key m =
     (let k = (if length key > bsize then h key else key);
          k = k @ replicate (bsize - length k) (CHR 0x00)
      in h (map (xor_byte 0x5c) k @ h (map (xor_byte 0x36) k @ m)))"

subsection \<open>UTF-8 (unicode/utf8)\<close>

definition is_cont :: "char \<Rightarrow> bool" where
  "is_cont c \<longleftrightarrow> 0x80 \<le> byte c \<and> byte c \<le> 0xBF"

text \<open>
  \<^verbatim>\<open>utf8.DecodeRune\<close> on a first byte above 0x7F: the bytes of the rune and the rest when
  the input starts with a well-formed encoding (shortest form, no surrogate, at most
  U+10FFFF), \<open>None\<close> when it returns \<^verbatim>\<open>RuneError\<close> with width 1.
\<close>

fun utf8_split :: "string \<Rightarrow> (string \<times> string) option" where
  "utf8_split [] = None"
| "utf8_split (c0 # cs) =
     (let b0 = byte c0 in
      if 0xC2 \<le> b0 \<and> b0 \<le> 0xDF then
        (case cs of
           c1 # r \<Rightarrow> if is_cont c1 then Some ([c0, c1], r) else None
         | _ \<Rightarrow> None)
      else if 0xE0 \<le> b0 \<and> b0 \<le> 0xEF then
        (case cs of
           c1 # c2 # r \<Rightarrow>
             if (if b0 = 0xE0 then 0xA0 else 0x80) \<le> byte c1
                \<and> byte c1 \<le> (if b0 = 0xED then 0x9F else 0xBF) \<and> is_cont c2
             then Some ([c0, c1, c2], r) else None
         | _ \<Rightarrow> None)
      else if 0xF0 \<le> b0 \<and> b0 \<le> 0xF4 then
        (case cs of
           c1 # c2 # c3 # r \<Rightarrow>
             if (if b0 = 0xF0 then 0x90 else 0x80) \<le> byte c1
                \<and> byte c1 \<le> (if b0 = 0xF4 then 0x8F else 0xBF) \<and> is_cont c2 \<and> is_cont c3
             then Some ([c0, c1, c2, c3], r) else None
         | _ \<Rightarrow> None)
      else None)"

text \<open>\<^verbatim>\<open>utf8.EncodeRune\<close>; a surrogate or a value above U+10FFFF is written as U+FFFD.\<close>

definition utf8_encode :: "nat \<Rightarrow> string" where
  "utf8_encode r =
     (if r < 0x80 then [char_of r]
      else if r < 0x800 then [char_of (0xC0 + r div 64), char_of (0x80 + r mod 64)]
      else if (0xD800 \<le> r \<and> r \<le> 0xDFFF) \<or> 0x10FFFF < r then [CHR 0xEF, CHR 0xBF, CHR 0xBD]
      else if r < 0x10000 then
        [char_of (0xE0 + r div 4096), char_of (0x80 + (r div 64) mod 64), char_of (0x80 + r mod 64)]
      else
        [char_of (0xF0 + r div 262144), char_of (0x80 + (r div 4096) mod 64),
         char_of (0x80 + (r div 64) mod 64), char_of (0x80 + r mod 64)])"

text \<open>
  A Go string coerced to valid UTF-8: every byte that does not start a well-formed
  encoding becomes U+FFFD. This is what \<^verbatim>\<open>json.Marshal\<close> followed by decoding does to a
  string.
\<close>

function coerce_utf8 :: "string \<Rightarrow> string" where
  "coerce_utf8 [] = []"
| "coerce_utf8 (c # cs) =
     (if byte c < 0x80 then c # coerce_utf8 cs
      else (case utf8_split (c # cs) of
              None \<Rightarrow> [CHR 0xEF, CHR 0xBF, CHR 0xBD] @ coerce_utf8 cs
            | Some (rb, rest) \<Rightarrow> rb @ coerce_utf8 rest))"
  by pat_completeness auto

termination
proof (relation "measure length")
  show "wf (measure length)" by simp
next
  fix c :: char and cs :: string
  show "(cs, c # cs) \<in> measure length" by simp
next
  fix c :: char and cs :: string
  show "(cs, c # cs) \<in> measure length" by simp
next
  fix c :: char and cs x2 rb rest :: string and x :: "string \<times> string"
  assume "utf8_split (c # cs) = Some x" and "(rb, rest) = x"
  then have "utf8_split (c # cs) = Some (rb, rest)" by simp
  then have "length rest < length (c # cs)"
    by (auto simp: Let_def split: if_splits list.splits)
  then show "(rest, c # cs) \<in> measure length" by simp
qed

text \<open>\<^verbatim>\<open>utf8.ValidString\<close>: every byte starts or continues a well-formed encoding.\<close>

function utf8_ValidString :: "string \<Rightarrow> bool" where
  "utf8_ValidString [] = True"
| "utf8_ValidString (c # cs) =
     (if byte c < 0x80 then utf8_ValidString cs
      else (case utf8_split (c # cs) of
              None \<Rightarrow> False
            | Some (rb, rest) \<Rightarrow> utf8_ValidString rest))"
  by pat_completeness auto

termination
proof (relation "measure length")
  show "wf (measure length)" by simp
next
  fix c :: char and cs :: string
  show "(cs, c # cs) \<in> measure length" by simp
next
  fix c :: char and cs x2 rb rest :: string and x :: "string \<times> string"
  assume "utf8_split (c # cs) = Some x" and "(rb, rest) = x"
  then have "utf8_split (c # cs) = Some (rb, rest)" by simp
  then have "length rest < length (c # cs)"
    by (auto simp: Let_def split: if_splits list.splits)
  then show "(rest, c # cs) \<in> measure length" by simp
qed

subsection \<open>JSON text (encoding/json)\<close>

text \<open>
  A decoded JSON value, as \<^verbatim>\<open>interface{}\<close> holds it. A number is a \<^verbatim>\<open>float64\<close>; the model keeps
  the exact value \<open>m * 10 ^ e\<close> of the literal as \<open>JNumber m e\<close> (binary rounding is not
  modelled; integers below \<open>2 ^ 53\<close>, such as Unix seconds, are exact in a \<^verbatim>\<open>float64\<close>).
  An object keeps its members in the order of the text; a lookup takes the last one with
  the key, as storing them one after another in a Go map does.
\<close>

datatype json =
    JNull
  | JBool bool
  | JNumber int int
  | JString string
  | JArray "json list"
  | JObject "(string \<times> json) list"

definition lookup :: "(string \<times> json) list \<Rightarrow> string \<Rightarrow> json option" where
  "lookup m k = map_of (rev m) k"

definition DQ :: char where "DQ = CHR 0x22"

definition BSL :: char where "BSL = CHR 0x5C"

definition replacement :: string where
  "replacement = [CHR 0xEF, CHR 0xBF, CHR 0xBD]"

definition hex_digit :: "nat \<Rightarrow> char" where
  "hex_digit n = ''0123456789abcdef'' ! n"

text \<open>\<^verbatim>\<open>htmlSafeSet\<close>: printable ASCII without the quote, the backslash and \<open>&\<close>, \<open><\<close>, \<open>>\<close>.\<close>

definition htmlSafe :: "char \<Rightarrow> bool" where
  "htmlSafe c \<longleftrightarrow>
     0x20 \<le> byte c \<and> byte c < 0x80 \<and> c \<noteq> DQ \<and> c \<noteq> BSL
     \<and> c \<noteq> CHR ''&'' \<and> c \<noteq> CHR ''<'' \<and> c \<noteq> CHR ''>''"

definition escape_ascii :: "char \<Rightarrow> string" where
  "escape_ascii c =
     (if c = BSL \<or> c = DQ then [BSL, c]
      else if c = CHR 0x08 then [BSL, CHR ''b'']
      else if c = CHR 0x0C then [BSL, CHR ''f'']
      else if c = CHR 0x0A then [BSL, CHR ''n'']
      else if c = CHR 0x0D then [BSL, CHR ''r'']
      else if c = CHR 0x09 then [BSL, CHR ''t'']
      else [BSL, CHR ''u'', CHR ''0'', CHR ''0'', hex_digit (byte c div 16), hex_digit (byte c mod 16)])"

text \<open>
  The loop of \<^verbatim>\<open>appendString\<close> with \<^verbatim>\<open>escapeHTML\<close> set, between the two quotes: safe ASCII
  is copied, other ASCII is escaped, a byte that is not valid UTF-8 is written as
  the escape of U+FFFD, U+2028 and U+2029 are escaped and any other rune is copied.
\<close>

function escape :: "string \<Rightarrow> string" where
  "escape [] = []"
| "escape (c # cs) =
     (if byte c < 0x80 then
        (if htmlSafe c then c # escape cs else escape_ascii c @ escape cs)
      else (case utf8_split (c # cs) of
              None \<Rightarrow> [BSL, CHR ''u'', CHR ''f'', CHR ''f'', CHR ''f'', CHR ''d''] @ escape cs
            | Some (rb, rest) \<Rightarrow>
                (if rb = [CHR 0xE2, CHR 0x80, CHR 0xA8] then [BSL, CHR ''u'', CHR ''2'', CHR ''0'', CHR ''2'', CHR ''8'']
                 else if rb = [CHR 0xE2, CHR 0x80, CHR 0xA9] then [BSL, CHR ''u'', CHR ''2'', CHR ''0'', CHR ''2'', CHR ''9'']
                 else rb) @ escape rest))"
  by pat_completeness auto

termination
proof (relation "measure length")
  show "wf (measure length)" by simp
next
  fix c :: char and cs :: string
  show "(cs, c # cs) \<in> measure length" by simp
next
  fix c :: char and cs :: string
  show "(cs, c # cs) \<in> measure length" by simp
next
  fix c :: char and cs :: string
  show "(cs, c # cs) \<in> measure length" by simp
next
  fix c :: char and cs x2 rb rest :: string and x :: "string \<times> string"
  assume "utf8_split (c # cs) = Some x" and "(rb, rest) = x"
  then have "utf8_split (c # cs) = Some (rb, rest)" by simp
  then have "length rest < length (c # cs)"
    by (auto simp: Let_def split: if_splits list.splits)
  then show "(rest, c # cs) \<in> measure length" by simp
qed

definition json_string :: "string \<Rightarrow> string" where
  "json_string s = DQ # escape s @ [DQ]"

text \<open>Decoding a string literal (\<^verbatim>\<open>unquote\<close>): the four hex digits of a \<^verbatim>\<open>\u\<close> escape.\<close>

definition hex_val :: "char \<Rightarrow> nat option" where
  "hex_val c =
     (let b = byte c in
      if 0x30 \<le> b \<and> b \<le> 0x39 then Some (b - 0x30)
      else if 0x61 \<le> b \<and> b \<le> 0x66 then Some (b - 0x61 + 10)
      else if 0x41 \<le> b \<and> b \<le> 0x46 then Some (b - 0x41 + 10)
      else None)"

text \<open>\<^verbatim>\<open>getu4\<close>: the rune of a \<^verbatim>\<open>\uXXXX\<close> at the head of the input, if there is one.\<close>

definition getu4 :: "string \<Rightarrow> nat option" where
  "getu4 s =
     (case s of
        b # u # h1 # h2 # h3 # h4 # r \<Rightarrow>
          if b = BSL \<and> u = CHR ''u'' then
            (case (hex_val h1, hex_val h2, hex_val h3, hex_val h4) of
               (Some a, Some b, Some c, Some d) \<Rightarrow> Some (a * 4096 + b * 256 + c * 16 + d)
             | _ \<Rightarrow> None)
          else None
      | _ \<Rightarrow> None)"

definition simple_escape :: "char \<Rightarrow> char option" where
  "simple_escape e =
     (if e = DQ \<or> e = BSL \<or> e = CHR ''/'' then Some e
      else if e = CHR ''b'' then Some (CHR 0x08)
      else if e = CHR ''f'' then Some (CHR 0x0C)
      else if e = CHR ''n'' then Some (CHR 0x0A)
      else if e = CHR ''r'' then Some (CHR 0x0D)
      else if e = CHR ''t'' then Some (CHR 0x09)
      else None)"

definition prepend :: "string \<Rightarrow> (string \<times> string) option \<Rightarrow> (string \<times> string) option" where
  "prepend xs r = map_option (\<lambda>(s, rest). (xs @ s, rest)) r"

text \<open>
  The input is what follows the opening quote; the result is the decoded string and what
  follows the closing quote. A control character, an unknown escape and the end of the
  input are syntax errors. A lone surrogate escape and a byte that is not valid UTF-8
  decode to U+FFFD.
\<close>

function unquote :: "string \<Rightarrow> (string \<times> string) option" where
  "unquote [] = None"
| "unquote (c # cs) =
     (if c = DQ then Some ([], cs)
      else if c = BSL then
        (case cs of
           [] \<Rightarrow> None
         | e # r \<Rightarrow>
             if e = CHR ''u'' then
               (case getu4 (c # cs) of
                  None \<Rightarrow> None
                | Some rr \<Rightarrow>
                    if 0xD800 \<le> rr \<and> rr \<le> 0xDFFF then
                      (case getu4 (drop 4 r) of
                         Some rr1 \<Rightarrow>
                           if rr \<le> 0xDBFF \<and> 0xDC00 \<le> rr1 \<and> rr1 \<le> 0xDFFF
                           then prepend (utf8_encode ((rr - 0xD800) * 1024 + (rr1 - 0xDC00) + 0x10000))
                                  (unquote (drop 10 r))
                           else prepend replacement (unquote (drop 4 r))
                       | None \<Rightarrow> prepend replacement (unquote (drop 4 r)))
                    else prepend (utf8_encode rr) (unquote (drop 4 r)))
             else (case simple_escape e of
                     None \<Rightarrow> None
                   | Some ch \<Rightarrow> prepend [ch] (unquote r)))
      else if byte c < 0x20 then None
      else if byte c < 0x80 then prepend [c] (unquote cs)
      else (case utf8_split (c # cs) of
              None \<Rightarrow> prepend replacement (unquote cs)
            | Some (rb, rest) \<Rightarrow> prepend rb (unquote rest)))"
  by pat_completeness auto

termination
  apply (relation "measure length")
  apply (auto simp: Let_def split: if_splits list.splits)
  done

text \<open>Number literals: \<^verbatim>\<open>-?(0|[1-9][0-9]*)(\.[0-9]+)?([eE][+-]?[0-9]+)?\<close>.\<close>

definition is_digit :: "char \<Rightarrow> bool" where
  "is_digit c \<longleftrightarrow> 0x30 \<le> byte c \<and> byte c \<le> 0x39"

text \<open>The digits at the head of the input: their value after \<open>acc\<close>, their number, the rest.\<close>

fun parse_digits :: "string \<Rightarrow> nat \<Rightarrow> nat \<Rightarrow> nat \<times> nat \<times> string" where
  "parse_digits [] acc n = (acc, n, [])"
| "parse_digits (c # cs) acc n =
     (if is_digit c then parse_digits cs (acc * 10 + (byte c - 0x30)) (Suc n)
      else (acc, n, c # cs))"

definition parse_int_part :: "string \<Rightarrow> (nat \<times> string) option" where
  "parse_int_part s =
     (case s of
        [] \<Rightarrow> None
      | c # r \<Rightarrow>
          if c = CHR ''0'' then Some (0, r)
          else if is_digit c then (case parse_digits s 0 0 of (v, n, rest) \<Rightarrow> Some (v, rest))
          else None)"

definition parse_frac_part :: "string \<Rightarrow> (nat \<times> nat \<times> string) option" where
  "parse_frac_part s =
     (case s of
        c # r \<Rightarrow>
          if c = CHR ''.'' then
            (case parse_digits r 0 0 of (v, n, rest) \<Rightarrow> if n = 0 then None else Some (v, n, rest))
          else Some (0, 0, s)
      | [] \<Rightarrow> Some (0, 0, s))"

definition parse_exp_part :: "string \<Rightarrow> (int \<times> string) option" where
  "parse_exp_part s =
     (case s of
        c # r \<Rightarrow>
          if c = CHR ''e'' \<or> c = CHR ''E'' then
            (let (neg, r') = (case r of
                                sg # r' \<Rightarrow> if sg = CHR ''-'' then (True, r')
                                           else if sg = CHR ''+'' then (False, r') else (False, r)
                              | [] \<Rightarrow> (False, r))
             in case parse_digits r' 0 0 of
                  (v, n, rest) \<Rightarrow> if n = 0 then None
                                  else Some (if neg then - int v else int v, rest))
          else Some (0, s)
      | [] \<Rightarrow> Some (0, s))"

definition parse_number :: "string \<Rightarrow> (json \<times> string) option" where
  "parse_number s =
     (let (neg, s1) = (case s of c # r \<Rightarrow> if c = CHR ''-'' then (True, r) else (False, s)
                               | [] \<Rightarrow> (False, s))
      in case parse_int_part s1 of
           None \<Rightarrow> None
         | Some (i, s2) \<Rightarrow>
             (case parse_frac_part s2 of
                None \<Rightarrow> None
              | Some (f, nf, s3) \<Rightarrow>
                  (case parse_exp_part s3 of
                     None \<Rightarrow> None
                   | Some (e, s4) \<Rightarrow>
                       (let m = int (i * 10 ^ nf + f)
                        in Some (JNumber (if neg then - m else m) (e - int nf), s4)))))"

definition is_ws :: "char \<Rightarrow> bool" where
  "is_ws c \<longleftrightarrow> c = CHR 0x20 \<or> c = CHR 0x09 \<or> c = CHR 0x0D \<or> c = CHR 0x0A"

definition skip_ws :: "string \<Rightarrow> string" where
  "skip_ws s = dropWhile is_ws s"

definition literal :: "string \<Rightarrow> json \<Rightarrow> string \<Rightarrow> (json \<times> string) option" where
  "literal word v s =
     (if take (length word) s = word then Some (v, drop (length word) s) else None)"

text \<open>
  The value at the head of the input and the rest. The first argument bounds the depth of
  the calls; every call has read a character before it calls again, so the length of the
  text is enough.
\<close>

fun parse_value :: "nat \<Rightarrow> string \<Rightarrow> (json \<times> string) option"
  and parse_members :: "nat \<Rightarrow> string \<Rightarrow> (string \<times> json) list \<Rightarrow> (json \<times> string) option"
  and parse_elements :: "nat \<Rightarrow> string \<Rightarrow> json list \<Rightarrow> (json \<times> string) option"
where
  "parse_value 0 s = None"
| "parse_value (Suc n) s =
     (case skip_ws s of
        [] \<Rightarrow> None
      | c # cs \<Rightarrow>
          if c = CHR ''{'' then
            (case skip_ws cs of
               [] \<Rightarrow> None
             | c' # r \<Rightarrow> if c' = CHR ''}'' then Some (JObject [], r)
                         else parse_members n (c' # r) [])
          else if c = CHR ''['' then
            (case skip_ws cs of
               [] \<Rightarrow> None
             | c' # r \<Rightarrow> if c' = CHR '']'' then Some (JArray [], r)
                         else parse_elements n (c' # r) [])
          else if c = DQ then map_option (\<lambda>(str, r). (JString str, r)) (unquote cs)
          else if c = CHR ''t'' then literal ''true'' (JBool True) (c # cs)
          else if c = CHR ''f'' then literal ''false'' (JBool False) (c # cs)
          else if c = CHR ''n'' then literal ''null'' JNull (c # cs)
          else if c = CHR ''-'' \<or> is_digit c then parse_number (c # cs)
          else None)"
| "parse_members 0 s acc = None"
| "parse_members (Suc n) s acc =
     (case s of
        [] \<Rightarrow> None
      | c # cs \<Rightarrow>
          if c \<noteq> DQ then None
          else
            (case unquote cs of
               None \<Rightarrow> None
             | Some (k, r1) \<Rightarrow>
                 (case skip_ws r1 of
                    [] \<Rightarrow> None
                  | c2 # r2 \<Rightarrow>
                      if c2 \<noteq> CHR '':'' then None
                      else
                        (case parse_value n r2 of
                           None \<Rightarrow> None
                         | Some (v, r3) \<Rightarrow>
                             (case skip_ws r3 of
                                [] \<Rightarrow> None
                              | c3 # r4 \<Rightarrow>
                                  if c3 = CHR '','' then parse_members n (skip_ws r4) (acc @ [(k, v)])
                                  else if c3 = CHR ''}'' then Some (JObject (acc @ [(k, v)]), r4)
                                  else None)))))"
| "parse_elements 0 s acc = None"
| "parse_elements (Suc n) s acc =
     (case parse_value n s of
        None \<Rightarrow> None
      | Some (v, r) \<Rightarrow>
          (case skip_ws r of
             [] \<Rightarrow> None
           | c # r' \<Rightarrow>
               if c = CHR '','' then parse_elements n r' (acc @ [v])
               else if c = CHR '']'' then Some (JArray (acc @ [v]), r')
               else None))"

text \<open>
  Storing a decoded value in a \<^verbatim>\<open>map[string]interface{}\<close>: an object gives its members,
  \<^verbatim>\<open>null\<close> leaves the map without members, anything else is an error.
\<close>

definition as_map :: "json \<Rightarrow> (string \<times> json) list option" where
  "as_map v = (case v of JObject m \<Rightarrow> Some m | JNull \<Rightarrow> Some [] | _ \<Rightarrow> None)"

text \<open>\<^verbatim>\<open>json.Unmarshal\<close> into a map: one value, then only white space.\<close>

definition json_Unmarshal :: "string \<Rightarrow> (string \<times> json) list option" where
  "json_Unmarshal s =
     (case parse_value (Suc (length s)) s of
        None \<Rightarrow> None
      | Some (v, rest) \<Rightarrow> if skip_ws rest \<noteq> [] then None else as_map v)"

text \<open>\<^verbatim>\<open>json.NewDecoder(...).Decode\<close> into a map: the first value of the stream.\<close>

definition json_Decode :: "string \<Rightarrow> (string \<times> json) list option" where
  "json_Decode s =
     (case parse_value (Suc (length s)) s of
        None \<Rightarrow> None
      | Some (v, rest) \<Rightarrow> as_map v)"

text \<open>\<^verbatim>\<open>strconv.FormatInt(i, 10)\<close>.\<close>

function nat_digits :: "nat \<Rightarrow> string" where
  "nat_digits n =
     (if n < 10 then [char_of (0x30 + n)]
      else nat_digits (n div 10) @ [char_of (0x30 + n mod 10)])"
  by pat_completeness auto

termination
  by (relation "measure id") simp_all

declare nat_digits.simps [simp del]

definition FormatInt :: "int \<Rightarrow> string" where
  "FormatInt i = (if i < 0 then CHR ''-'' # nat_digits (nat (- i)) else nat_digits (nat i))"

text \<open>
  \<^verbatim>\<open>json.Marshal\<close> of a map whose values are strings and \<^verbatim>\<open>int64\<close>s (the header and the
  claims that \<open>CreateToken\<close> makes): the members sorted by key, bytewise.
\<close>

datatype go_value = GoString string | GoInt64 int

fun marshal_value :: "go_value \<Rightarrow> string" where
  "marshal_value (GoString s) = json_string s"
| "marshal_value (GoInt64 i) = FormatInt i"

fun string_less :: "string \<Rightarrow> string \<Rightarrow> bool" where
  "string_less [] [] = False"
| "string_less [] (y # ys) = True"
| "string_less (x # xs) [] = False"
| "string_less (x # xs) (y # ys) = (byte x < byte y \<or> (x = y \<and> string_less xs ys))"

fun insert_member :: "string \<times> 'v \<Rightarrow> (string \<times> 'v) list \<Rightarrow> (string \<times> 'v) list" where
  "insert_member kv [] = [kv]"
| "insert_member kv (m # ms) =
     (if string_less (fst kv) (fst m) then kv # m # ms else m # insert_member kv ms)"

definition sort_members :: "(string \<times> 'v) list \<Rightarrow> (string \<times> 'v) list" where
  "sort_members ms = foldr insert_member ms []"

fun join_members :: "string list \<Rightarrow> string" where
  "join_members [] = []"
| "join_members [x] = x"
| "join_members (x # y # ys) = x @ CHR '','' # join_members (y # ys)"

definition json_Marshal :: "(string \<times> go_value) list \<Rightarrow> string" where
  "json_Marshal m =
     CHR ''{'' # join_members (map (\<lambda>(k, v). json_string k @ CHR '':'' # marshal_value v) (sort_members m))
       @ [CHR ''}'']"

subsection \<open>Tokens (github.com/golang-jwt/jwt, v3.2.2)\<close>

text \<open>
  The \<^verbatim>\<open>Errors\<close> bits of a \<^verbatim>\<open>*jwt.ValidationError\<close>, as a set; the message and the inner error
  are left out.
\<close>

datatype validation_flag =
    ValidationErrorMalformed
  | ValidationErrorUnverifiable
  | ValidationErrorSignatureInvalid
  | ValidationErrorExpired
  | ValidationErrorIssuedAt
  | ValidationErrorNotValidYet

text \<open>
  The errors that \<open>VerifyToken\<close> returns: a validation error of the library, or the
  \<^verbatim>\<open>fmt.Errorf("invalid token")\<close> of its own.
\<close>

datatype token_error = ValidationError "validation_flag set" | ErrorText string

text \<open>
  The registered signing methods. Only the three HMAC methods accept a \<^verbatim>\<open>[]byte\<close> key; the
  others (RSA, RSA-PSS, ECDSA, none) are kept by name.
\<close>

datatype signing_method = SigningMethodHS256 | SigningMethodHS384 | SigningMethodHS512
  | SigningMethodOther string

definition GetSigningMethod :: "string \<Rightarrow> signing_method option" where
  "GetSigningMethod alg =
     (if alg = ''HS256'' then Some SigningMethodHS256
      else if alg = ''HS384'' then Some SigningMethodHS384
      else if alg = ''HS512'' then Some SigningMethodHS512
      else if alg \<in> set [''RS256'', ''RS384'', ''RS512'', ''PS256'', ''PS384'', ''PS512'',
                          ''ES256'', ''ES384'', ''ES512'', ''none'']
      then Some (SigningMethodOther alg)
      else None)"

definition Alg :: "signing_method \<Rightarrow> string" where
  "Alg m = (case m of SigningMethodHS256 \<Rightarrow> ''HS256'' | SigningMethodHS384 \<Rightarrow> ''HS384''
            | SigningMethodHS512 \<Rightarrow> ''HS512'' | SigningMethodOther a \<Rightarrow> a)"

text \<open>The MAC of an HMAC method; \<open>None\<close> for a method that is not one.\<close>

definition method_mac :: "signing_method \<Rightarrow> (string \<Rightarrow> string \<Rightarrow> string) option" where
  "method_mac m =
     (case m of
        SigningMethodHS256 \<Rightarrow> Some (hmac sha256 64)
      | SigningMethodHS384 \<Rightarrow> Some (hmac sha384 128)
      | SigningMethodHS512 \<Rightarrow> Some (hmac sha512 128)
      | SigningMethodOther a \<Rightarrow> None)"

text \<open>
  \<^verbatim>\<open>Method.Sign\<close> and \<^verbatim>\<open>Method.Verify\<close> with a \<^verbatim>\<open>[]byte\<close> key. \<open>Verify\<close> returns whether it
  returned no error: the signature segment must decode, and the bytes must be the MAC of
  the signing string. A method that is not HMAC rejects the key.
\<close>

definition Method_Sign :: "signing_method \<Rightarrow> string \<Rightarrow> string \<Rightarrow> string option" where
  "Method_Sign m signingString key =
     (case method_mac m of
        None \<Rightarrow> None
      | Some mac \<Rightarrow> Some (EncodeSegment (mac key signingString)))"

definition Method_Verify :: "signing_method \<Rightarrow> string \<Rightarrow> string \<Rightarrow> string \<Rightarrow> bool" where
  "Method_Verify m signingString signature key =
     (case method_mac m of
        None \<Rightarrow> False
      | Some mac \<Rightarrow>
          (case DecodeSegment signature of
             None \<Rightarrow> False
           | Some sig \<Rightarrow> sig = mac key signingString))"

text \<open>
  \<^verbatim>\<open>jwt.Token\<close>. Its field \<^verbatim>\<open>Valid\<close> is \<open>TokenValid\<close> here, \<open>Valid\<close> being the field of
  \<^verbatim>\<open>sql.NullTime\<close>.
\<close>

record Token =
  Raw :: string
  Method :: signing_method
  Header :: "(string \<times> json) list"
  Claims :: "(string \<times> json) list"
  Signature :: string
  TokenValid :: bool

text \<open>\<^verbatim>\<open>strings.Split(s, ".")\<close>.\<close>

fun split_dots :: "string \<Rightarrow> string list" where
  "split_dots [] = [[]]"
| "split_dots (c # cs) =
     (if c = CHR ''.'' then [] # split_dots cs
      else (case split_dots cs of p # ps \<Rightarrow> (c # p) # ps | [] \<Rightarrow> [[c]]))"

text \<open>
  \<^verbatim>\<open>int64(f)\<close> for the \<^verbatim>\<open>float64\<close> of a number: the value \<open>m * 10 ^ e\<close> cut off towards zero.
\<close>

definition to_int64 :: "int \<Rightarrow> int \<Rightarrow> int" where
  "to_int64 m e =
     (if 0 \<le> e then m * 10 ^ nat e
      else if 0 \<le> m then m div 10 ^ nat (- e)
      else - ((- m) div 10 ^ nat (- e)))"

definition verifyExp :: "int \<Rightarrow> int \<Rightarrow> bool \<Rightarrow> bool" where
  "verifyExp exp now required = (if exp = 0 then \<not> required else now \<le> exp)"

definition verifyIat :: "int \<Rightarrow> int \<Rightarrow> bool \<Rightarrow> bool" where
  "verifyIat iat now required = (if iat = 0 then \<not> required else now \<ge> iat)"

definition verifyNbf :: "int \<Rightarrow> int \<Rightarrow> bool \<Rightarrow> bool" where
  "verifyNbf nbf now required = (if nbf = 0 then \<not> required else now \<ge> nbf)"

text \<open>
  \<^verbatim>\<open>MapClaims.VerifyExpiresAt\<close>, \<^verbatim>\<open>VerifyIssuedAt\<close> and \<^verbatim>\<open>VerifyNotBefore\<close>: a claim that is
  absent passes unless required, a number is compared, anything else fails.
\<close>

definition VerifyExpiresAt :: "(string \<times> json) list \<Rightarrow> int \<Rightarrow> bool \<Rightarrow> bool" where
  "VerifyExpiresAt m cmp req =
     (case lookup m ''exp'' of
        None \<Rightarrow> \<not> req
      | Some (JNumber v e) \<Rightarrow> verifyExp (to_int64 v e) cmp req
      | Some _ \<Rightarrow> False)"

definition VerifyIssuedAt :: "(string \<times> json) list \<Rightarrow> int \<Rightarrow> bool \<Rightarrow> bool" where
  "VerifyIssuedAt m cmp req =
     (case lookup m ''iat'' of
        None \<Rightarrow> \<not> req
      | Some (JNumber v e) \<Rightarrow> verifyIat (to_int64 v e) cmp req
      | Some _ \<Rightarrow> False)"

definition VerifyNotBefore :: "(string \<times> json) list \<Rightarrow> int \<Rightarrow> bool \<Rightarrow> bool" where
  "VerifyNotBefore m cmp req =
     (case lookup m ''nbf'' of
        None \<Rightarrow> \<not> req
      | Some (JNumber v e) \<Rightarrow> verifyNbf (to_int64 v e) cmp req
      | Some _ \<Rightarrow> False)"

text \<open>\<^verbatim>\<open>MapClaims.Valid\<close> at the clock \<open>now\<close> (\<^verbatim>\<open>TimeFunc().Unix()\<close>): the bits it sets.\<close>

definition MapClaims_Valid :: "int \<Rightarrow> (string \<times> json) list \<Rightarrow> validation_flag set" where
  "MapClaims_Valid now m =
     (if \<not> VerifyExpiresAt m now False then {ValidationErrorExpired} else {})
     \<union> (if \<not> VerifyIssuedAt m now False then {ValidationErrorIssuedAt} else {})
     \<union> (if \<not> VerifyNotBefore m now False then {ValidationErrorNotValidYet} else {})"

text \<open>
  \<^verbatim>\<open>Parser.ParseUnverified\<close> with \<^verbatim>\<open>MapClaims\<close>: the token read from the first two segments,
  or the error. The token that comes with an error is left out: \<open>VerifyToken\<close> does not
  look at it.
\<close>

definition ParseUnverified :: "string \<Rightarrow> token_error + Token \<times> string list" where
  "ParseUnverified tokenString =
     (let parts = split_dots tokenString in
      if length parts \<noteq> 3 then Inl (ValidationError {ValidationErrorMalformed})
      else
        (case DecodeSegment (parts ! 0) of
           None \<Rightarrow> Inl (ValidationError {ValidationErrorMalformed})
         | Some headerBytes \<Rightarrow>
        (case json_Unmarshal headerBytes of
           None \<Rightarrow> Inl (ValidationError {ValidationErrorMalformed})
         | Some header \<Rightarrow>
        (case DecodeSegment (parts ! 1) of
           None \<Rightarrow> Inl (ValidationError {ValidationErrorMalformed})
         | Some claimBytes \<Rightarrow>
        (case json_Decode claimBytes of
           None \<Rightarrow> Inl (ValidationError {ValidationErrorMalformed})
         | Some claims \<Rightarrow>
        (case lookup header ''alg'' of
           Some (JString method) \<Rightarrow>
             (case GetSigningMethod method of
                None \<Rightarrow> Inl (ValidationError {ValidationErrorUnverifiable})
              | Some m \<Rightarrow>
                  Inr (\<lparr>Raw = tokenString, Method = m, Header = header, Claims = claims,
                        Signature = [], TokenValid = False\<rparr>, parts))
         | _ \<Rightarrow> Inl (ValidationError {ValidationErrorUnverifiable})))))))"

text \<open>
  \<^verbatim>\<open>jwt.Parse(tokenString, keyFunc)\<close> where \<^verbatim>\<open>keyFunc\<close> returns \<open>key\<close> and no error, as the one
  in \<open>VerifyToken\<close> does: the claims are validated, then the signature, and the token is
  valid when neither set a bit.
\<close>

definition Parse :: "int \<Rightarrow> string \<Rightarrow> string \<Rightarrow> token_error + Token" where
  "Parse now key tokenString =
     (case ParseUnverified tokenString of
        Inl err \<Rightarrow> Inl err
      | Inr (token, parts) \<Rightarrow>
          (let vErr = MapClaims_Valid now (Claims token);
               token = token\<lparr>Signature := parts ! 2\<rparr>;
               vErr = (if \<not> Method_Verify (Method token) (parts ! 0 @ CHR ''.'' # parts ! 1)
                              (Signature token) key
                       then vErr \<union> {ValidationErrorSignatureInvalid} else vErr)
           in if vErr = {} then Inr (token\<lparr>TokenValid := True\<rparr>)
              else Inl (ValidationError vErr)))"

text \<open>
  \<^verbatim>\<open>jwt.NewWithClaims(method, claims)\<close> and \<^verbatim>\<open>token.SignedString(key)\<close>: the two encoded
  segments and the signature over them.
\<close>

definition SigningString :: "signing_method \<Rightarrow> (string \<times> go_value) list \<Rightarrow> string" where
  "SigningString m claims =
     EncodeSegment (json_Marshal [(''typ'', GoString ''JWT''), (''alg'', GoString (Alg m))])
     @ CHR ''.'' # EncodeSegment (json_Marshal claims)"

definition SignedString :: "signing_method \<Rightarrow> (string \<times> go_value) list \<Rightarrow> string \<Rightarrow> string option" where
  "SignedString m claims key =
     (case Method_Sign m (SigningString m claims) key of
        None \<Rightarrow> None
      | Some sig \<Rightarrow> Some (SigningString m claims @ CHR ''.'' # sig))"

section \<open>Credential codec (the token source file)\<close>

text \<open>
  The two functions of the repository. \<open>secretKey\<close> is \<^verbatim>\<open>os.Getenv("SECRET_KEY")\<close> and \<open>now\<close>
  the clock in Unix seconds. A Go function either returns or panics.
\<close>

datatype 'a go_result = Returns 'a | Panics string

definition CreateToken :: "string \<Rightarrow> int \<Rightarrow> string \<Rightarrow> string \<times> string option" where
  "CreateToken secretKey now usertkn =
     (case SignedString SigningMethodHS256
             [(''usertkn'', GoString usertkn), (''exp'', GoInt64 (now + 24 * 3600))] secretKey of
        None \<Rightarrow> ([], Some ''key is of invalid type'')
      | Some tokenString \<Rightarrow> (tokenString, None))"

text \<open>The dynamic type of a decoded value, as a failed type assertion prints it.\<close>

definition type_name :: "json \<Rightarrow> string" where
  "type_name v =
     (case v of
        JNull \<Rightarrow> ''nil''
      | JBool b \<Rightarrow> ''bool''
      | JNumber m e \<Rightarrow> ''float64''
      | JString s \<Rightarrow> ''string''
      | JArray xs \<Rightarrow> ''[]interface {}''
      | JObject ms \<Rightarrow> ''map[string]interface {}'')"

definition VerifyToken :: "string \<Rightarrow> int \<Rightarrow> string \<Rightarrow> (string \<times> token_error option) go_result" where
  "VerifyToken secretKey now tokenString =
     (case Parse now secretKey tokenString of
        Inl err \<Rightarrow> Returns ([], Some err)
      | Inr token \<Rightarrow>
          if \<not> TokenValid token then Returns ([], Some (ErrorText ''invalid token''))
          else
            (case lookup (Claims token) ''usertkn'' of
               Some (JString usertkn) \<Rightarrow> Returns (usertkn, None)
             | Some v \<Rightarrow> Panics (''interface conversion: interface {} is '' @ type_name v @ '', not string'')
             | None \<Rightarrow> Panics ''interface conversion: interface {} is nil, not string''))"

subsection \<open>Definitions used in the proofs\<close>

definition val_chars :: "nat \<Rightarrow> string" where
  "val_chars V = [char_of (V div 65536), char_of (V div 256), char_of V]"

fun encode_raw :: "string \<Rightarrow> string" where
  "encode_raw (a # b # c # rest) =
     enc_char (byte a div 4)
     # enc_char ((byte a mod 4) * 16 + byte b div 16)
     # enc_char ((byte b mod 16) * 4 + byte c div 64)
     # enc_char (byte c mod 64)
     # encode_raw rest"
| "encode_raw [a, b] =
     [enc_char (byte a div 4),
      enc_char ((byte a mod 4) * 16 + byte b div 16),
      enc_char ((byte b mod 16) * 4)]"
| "encode_raw [a] =
     [enc_char (byte a div 4),
      enc_char ((byte a mod 4) * 16)]"
| "encode_raw [] = []"

fun join_dots :: "string list \<Rightarrow> string" where
  "join_dots [] = []"
| "join_dots [p] = p"
| "join_dots (p # q # ps) = p @ CHR ''.'' # join_dots (q # ps)"

definition ends_number :: "char \<Rightarrow> bool" where
  "ends_number c \<longleftrightarrow> \<not> is_digit c \<and> c \<noteq> CHR ''.'' \<and> c \<noteq> CHR ''e'' \<and> c \<noteq> CHR ''E''"

definition issued_header :: string where
  "issued_header = EncodeSegment (json_Marshal [(''typ'', GoString ''JWT''), (''alg'', GoString ''HS256'')])"

definition issued_payload :: "int \<Rightarrow> string \<Rightarrow> string" where
  "issued_payload now s =
     EncodeSegment (json_Marshal [(''usertkn'', GoString s), (''exp'', GoInt64 (now + 24 * 3600))])"

definition issued_signature :: "string \<Rightarrow> int \<Rightarrow> string \<Rightarrow> string" where
  "issued_signature key now s =
     EncodeSegment (hmac sha256 64 key (issued_header @ CHR ''.'' # issued_payload now s))"

text \<open>
  A credential signed with the key whose claims are only an expiry: what another issuer
  holding the same key, or anyone when the key is empty, can hand to \<open>VerifyToken\<close>.
\<close>

definition token_without_subject :: "string \<Rightarrow> int \<Rightarrow> string" where
  "token_without_subject key exp =
     (case SignedString SigningMethodHS256 [(''exp'', GoInt64 exp)] key of
        Some t \<Rightarrow> t
      | None \<Rightarrow> [])"

section \<open>Properties of the identity resolver\<close>

subsection \<open>What the scans and the three blocks leave alone\<close>

lemma cell_keeps_dest:
  assumes "\<And>v s. P (store v s) = P s"
  shows "cell_keeps P (dest c store)"
  using assms by (cases c) (simp_all add: cell_keeps_def dest_def)

lemma scan_dests_keeps:
  assumes "list_all (cell_keeps P) cs"
  shows "P (fst (scan_dests cs s)) = P s"
  using assms
proof (induction cs s rule: scan_dests.induct)
  case (3 f cs s)
  then show ?case by (simp add: cell_keeps_def)
qed simp_all

lemma Row_Scan_keeps:
  assumes "\<And>r. list_all (cell_keeps P) (dests r)"
  shows "P (fst (Row_Scan q dests s)) = P s"
proof (cases q)
  case (Row r cl)
  obtain s' err where sc: "scan_dests (dests r) s = (s', err)"
    by (cases "scan_dests (dests r) s")
  then have "P s' = P s"
    using scan_dests_keeps [OF assms, of r s] by simp
  with Row sc show ?thesis by (cases err) simp_all
qed simp_all

lemma user_dests_Permissions:
  "list_all (cell_keeps (\<lambda>s. Permissions (fst s))) (user_dests r)"
  unfolding user_dests_def list.pred_inject
  by (intro conjI cell_keeps_dest TrueI) (simp_all add: split_def)

lemma user_dests_Locations:
  "list_all (cell_keeps (\<lambda>s. Locations (fst s))) (user_dests r)"
  unfolding user_dests_def list.pred_inject
  by (intro conjI cell_keeps_dest TrueI) (simp_all add: split_def)

lemma security_dests_ID: "list_all (cell_keeps ID) (security_dests r)"
  unfolding security_dests_def list.pred_inject
  by (intro conjI cell_keeps_dest TrueI) (simp_all add: perm_def)

lemma security_dests_Locations: "list_all (cell_keeps Locations) (security_dests r)"
  unfolding security_dests_def list.pred_inject
  by (intro conjI cell_keeps_dest TrueI) (simp_all add: perm_def)

lemma scan_locations_fst:
  "fst (scan_locations rs locs) = locs ++ map_of (rev (scanned_rows rs))"
proof (induction rs locs rule: scan_locations.induct)
  case (1 locs)
  show ?case by simp
next
  case (2 e rs locs)
  obtain l ev where sl: "scan_locations rs locs = (l, ev)"
    by (cases "scan_locations rs locs")
  with 2 show ?case by simp
next
  case (3 lid sn rs locs)
  have h: "locs(lid \<mapsto> sn) ++ map_of (rev (scanned_rows rs))
        = locs ++ map_of (rev (scanned_rows (Inr (lid, sn) # rs)))"
    by (simp add: map_add_def fun_eq_iff split: option.splits)
  show ?case by (simp only: scan_locations.simps "3.IH" h)
qed

lemma load_permissions_ID: "ID (fst (load_permissions d m)) = ID m"
proof -
  obtain m' err where sc: "Row_Scan (select_bo_user_security d (ID m)) security_dests m = (m', err)"
    by (cases "Row_Scan (select_bo_user_security d (ID m)) security_dests m")
  then have "ID m' = ID m"
    using Row_Scan_keeps [of ID security_dests "select_bo_user_security d (ID m)" m]
    by (simp add: security_dests_ID)
  with sc show ?thesis by (simp add: load_permissions_def)
qed

lemma load_permissions_Locations: "Locations (fst (load_permissions d m)) = Locations m"
proof -
  obtain m' err where sc: "Row_Scan (select_bo_user_security d (ID m)) security_dests m = (m', err)"
    by (cases "Row_Scan (select_bo_user_security d (ID m)) security_dests m")
  then have "Locations m' = Locations m"
    using Row_Scan_keeps [of Locations security_dests "select_bo_user_security d (ID m)" m]
    by (simp add: security_dests_Locations)
  with sc show ?thesis by (simp add: load_permissions_def)
qed

lemma load_locations_user:
  "fst (load_locations d m) =
     m\<lparr>Locations := Some (case select_bo_user_locations d (ID m) of
          QueryFailed e \<Rightarrow> Map.empty
        | Rows rs \<Rightarrow> map_of (rev (scanned_rows rs)))\<rparr>"
proof (cases "select_bo_user_locations d (ID m)")
  case (QueryFailed e)
  then show ?thesis by (simp add: load_locations_def)
next
  case (Rows rs)
  obtain locs ev where sl: "scan_locations rs Map.empty = (locs, ev)"
    by (cases "scan_locations rs Map.empty")
  then have "locs = map_of (rev (scanned_rows rs))"
    using scan_locations_fst [of rs Map.empty] by simp
  with Rows sl show ?thesis by (simp add: load_locations_def)
qed

lemma Get_error_cases:
  assumes "Row_Scan (select_bo_user d tkn) user_dests (m0, zero_NullTime, zero_NullTime) = ((m, ll, pe), Some e)"
  shows "Get d tkn m0 =
           ((m, Some (if errors_Is e ErrNoRows then ErrInvalidUserToken
                      else ErrorString (''there was an unexpected error reading from the database: '' @ error_text e))),
            [DbQueryRow sql_bo_user [ArgString tkn]])"
  using assms by (simp add: Get_def)

subsection \<open>The paths through \<open>Get\<close>\<close>

lemma Get_active:
  assumes "Row_Scan (select_bo_user d tkn) user_dests (m0, zero_NullTime, zero_NullTime) = ((m, ll, pe), None)"
    and "Active m"
  shows "Get d tkn m0 =
           ((fst (load_locations d (fst (load_permissions d (after_gate m ll pe)))), None),
            DbQueryRow sql_bo_user [ArgString tkn]
              # snd (load_permissions d (after_gate m ll pe))
              @ snd (load_locations d (fst (load_permissions d (after_gate m ll pe))))
              @ stamp_last_login d (fst (load_locations d (fst (load_permissions d (after_gate m ll pe))))))"
proof -
  let ?m1 = "after_gate m ll pe"
  have g: "(if Valid pe
            then (if Valid ll then m\<lparr>LastLogin := Time ll\<rparr> else m)\<lparr>PasswordExpiryDate := Time pe\<rparr>
            else (if Valid ll then m\<lparr>LastLogin := Time ll\<rparr> else m)) = ?m1"
    by (simp add: after_gate_def Let_def)
  obtain m2 ev2 where p: "load_permissions d ?m1 = (m2, ev2)"
    by (cases "load_permissions d ?m1")
  obtain m3 ev3 where l: "load_locations d m2 = (m3, ev3)"
    by (cases "load_locations d m2")
  have "Get d tkn m0 = ((m3, None), DbQueryRow sql_bo_user [ArgString tkn] # ev2 @ ev3 @ stamp_last_login d m3)"
    unfolding Get_def assms(1) using assms(2)
    by (simp only: prod.case option.case Let_def g p l if_False not_True_eq_False not_not simp_thms append_Cons append_Nil)
  with p l show ?thesis by simp
qed

lemmas ret_defs = ret_user_def ret_err_def ret_events_def

lemma Get_inactive:
  assumes "Row_Scan (select_bo_user d tkn) user_dests (m0, zero_NullTime, zero_NullTime) = ((m, ll, pe), None)"
    and "\<not> Active m"
  shows "Get d tkn m0 = ((m, Some ErrUserInActive), [DbQueryRow sql_bo_user [ArgString tkn]])"
  using assms by (simp add: Get_def)

lemma Get_no_error_iff:
  "ret_err (Get d tkn m0) = None \<longleftrightarrow>
     (\<exists>m ll pe. Row_Scan (select_bo_user d tkn) user_dests (m0, zero_NullTime, zero_NullTime)
                   = ((m, ll, pe), None) \<and> Active m)"
proof -
  obtain m ll pe err where sc:
    "Row_Scan (select_bo_user d tkn) user_dests (m0, zero_NullTime, zero_NullTime) = ((m, ll, pe), err)"
    by (cases "Row_Scan (select_bo_user d tkn) user_dests (m0, zero_NullTime, zero_NullTime)") auto
  show ?thesis
  proof (cases err)
    case None
    show ?thesis
    proof (cases "Active m")
      case True
      with sc None show ?thesis by (simp add: Get_active ret_err_def)
    next
      case False
      with sc None show ?thesis by (simp add: Get_inactive ret_err_def)
    qed
  next
    case (Some e)
    with sc show ?thesis by (simp add: Get_error_cases ret_err_def)
  qed
qed

lemma after_gate_keeps:
  "ID (after_gate m ll pe) = ID m" "Permissions (after_gate m ll pe) = Permissions m"
  "Locations (after_gate m ll pe) = Locations m" "Active (after_gate m ll pe) = Active m"
  by (simp_all add: after_gate_def Let_def)

lemma load_locations_keeps:
  "ID (fst (load_locations d m)) = ID m" "Permissions (fst (load_locations d m)) = Permissions m"
  by (simp_all add: load_locations_user)

lemma load_permissions_no_row:
  assumes "select_bo_user_security d (ID m) = NoRow \<or> select_bo_user_security d (ID m) = QueryError e"
  shows "fst (load_permissions d m) = m"
    and "LogWarn (if select_bo_user_security d (ID m) = NoRow then ErrNoRows else e)
           \<in> set (snd (load_permissions d m))"
  using assms by (auto simp: load_permissions_def)


lemma load_permissions_upd:
  "load_permissions (d\<lparr>select_bo_user_locations := g\<rparr>) m = load_permissions d m"
  "load_permissions (d\<lparr>update_last_login := h\<rparr>) m = load_permissions d m"
  by (simp_all add: load_permissions_def)

lemma load_locations_upd:
  "load_locations (d\<lparr>update_last_login := h\<rparr>) m = load_locations d m"
  by (simp add: load_locations_def)

lemma scan_dests_dest:
  "scan_dests (dest c st # rest) s = (case c of Inl e \<Rightarrow> (s, Some e) | Inr v \<Rightarrow> scan_dests rest (st v s))"
  by (cases c) (simp_all add: dest_def)

lemma scan_security_flags:
  assumes "all_flags_false (Permissions m)"
  shows "all_flags_false (Permissions (fst (scan_dests (security_dests r) m)))
           \<longleftrightarrow> \<not> stored_true (security_cells r)"
  using assms
  unfolding security_dests_def security_cells_def
  by (simp only: scan_dests_dest stored_true.simps)
     (auto split: sum.splits simp: perm_def all_flags_false_def)

lemma Row_Scan_security_flags:
  assumes "all_flags_false (Permissions m)"
  shows "all_flags_false (Permissions (fst (Row_Scan q security_dests m))) \<longleftrightarrow> \<not> lookup_stored_true q"
proof (cases q)
  case (Row r cl)
  obtain m' err where sc: "scan_dests (security_dests r) m = (m', err)"
    by (cases "scan_dests (security_dests r) m")
  have "all_flags_false (Permissions m') \<longleftrightarrow> \<not> stored_true (security_cells r)"
    using scan_security_flags [OF assms, of r] sc by simp
  with Row sc show ?thesis by (cases err) (simp_all add: lookup_stored_true_def)
qed (simp_all add: lookup_stored_true_def assms)

lemma Row_Scan_security_first_column:
  assumes "q = NoRow \<or> q = QueryError e \<or> (\<exists>r cl e'. q = Row r cl \<and> c_manage_tariff r = Inl e')"
  shows "fst (Row_Scan q security_dests m) = m" "snd (Row_Scan q security_dests m) \<noteq> None"
  using assms by (auto simp: security_dests_def dest_def)

lemma load_permissions_user:
  "fst (load_permissions d m) = fst (Row_Scan (select_bo_user_security d (ID m)) security_dests m)"
  by (cases "Row_Scan (select_bo_user_security d (ID m)) security_dests m") (simp add: load_permissions_def)

lemma load_permissions_logged:
  assumes "snd (Row_Scan (select_bo_user_security d (ID m)) security_dests m) = Some e"
  shows "LogWarn e \<in> set (snd (load_permissions d m))"
  using assms
  by (cases "Row_Scan (select_bo_user_security d (ID m)) security_dests m") (simp add: load_permissions_def)

lemmas demo_defs = demo_db_def demo_db_inactive_def demo_db_down_def demo_db_null_flag_def
  demo_user_row_def demo_security_row_def conn_refused_def null_to_bool_def
lemmas model_defs = Get_def GetUser_def load_permissions_def load_locations_def stamp_last_login_def
  user_dests_def security_dests_def dest_def perm_def NullTime_Scan_def zero_User_def zero_NullTime_def
  zero_Permissions_def


subsection \<open>The active-state gate\<close>

text \<open>
  Claim C1. When the user row is found (the first \<^verbatim>\<open>Scan\<close> returns no error) and its
  active flag is false, \<open>Get\<close> returns \<open>ErrUserInActive\<close> at once: the only statement sent
  to the database is the user lookup, so there is no permission lookup, no location
  lookup and no last-login write, and nothing is logged. The result is the same whatever
  the permission lookup \<open>f\<close>, the location lookup \<open>g\<close> and the last-login write \<open>h\<close> would
  have answered, also when they would fail.
\<close>

theorem C1_inactive_gate:
  assumes "Row_Scan (select_bo_user d tkn) user_dests (m0, zero_NullTime, zero_NullTime)
             = ((m, ll, pe), None)"
    and "\<not> Active m"
  shows "Get (d\<lparr>select_bo_user_security := f, select_bo_user_locations := g,
                 update_last_login := h\<rparr>) tkn m0
           = ((m, Some ErrUserInActive), [DbQueryRow sql_bo_user [ArgString tkn]])"
  using assms by (simp add: Get_def)

theorem C1_inactive_gate_witness:
  "Row_Scan (select_bo_user demo_db_inactive ''u-42'') user_dests
       (zero_User, zero_NullTime, zero_NullTime)
     = ((demo_inactive_user, \<lparr>Time = 1700000000, Valid = True\<rparr>, \<lparr>Time = 0, Valid = False\<rparr>), None)
   \<and> \<not> Active demo_inactive_user
   \<and> Get (demo_db_inactive\<lparr>select_bo_user_security := (\<lambda>i. QueryError conn_refused),
                             select_bo_user_locations := (\<lambda>i. QueryFailed conn_refused),
                             update_last_login := (\<lambda>i. Some conn_refused)\<rparr>) ''u-42'' zero_User
     = ((demo_inactive_user, Some ErrUserInActive), [DbQueryRow sql_bo_user [ArgString ''u-42'']])"
proof -
  have h1: "Row_Scan (select_bo_user demo_db_inactive ''u-42'') user_dests
              (zero_User, zero_NullTime, zero_NullTime)
            = ((demo_inactive_user, \<lparr>Time = 1700000000, Valid = True\<rparr>, \<lparr>Time = 0, Valid = False\<rparr>), None)"
    by (simp add: demo_db_inactive_def demo_db_def demo_user_row_def user_dests_def dest_def
        NullTime_Scan_def zero_User_def zero_NullTime_def demo_inactive_user_def)
  have h2: "\<not> Active demo_inactive_user"
    by (simp add: demo_inactive_user_def zero_User_def)
  show ?thesis
    using C1_inactive_gate [OF h1 h2] h1 h2 by simp
qed

subsection \<open>Unknown subject and storage errors\<close>

text \<open>
  Claim C3. When no user row matches the subject identifier, \<open>Get\<close> returns
  \<open>ErrInvalidUserToken\<close>. When the first \<^verbatim>\<open>Scan\<close> fails with any error \<open>e\<close> that is not
  \<^verbatim>\<open>sql.ErrNoRows\<close> (\<^verbatim>\<open>errors.Is\<close> says no), \<open>Get\<close> returns a different error, whose message is the
  fixed prefix followed by the text of \<open>e\<close>; it is neither \<open>ErrInvalidUserToken\<close> nor
  \<open>ErrUserInActive\<close>. \<open>ErrInvalidUserToken\<close> is returned for a failed \<^verbatim>\<open>Scan\<close> exactly when
  \<^verbatim>\<open>errors.Is(err, sql.ErrNoRows)\<close> holds.
\<close>

theorem C3_unknown_subject_or_storage_error:
  "(select_bo_user d tkn = NoRow \<longrightarrow> ret_err (Get d tkn m0) = Some ErrInvalidUserToken)
   \<and> (\<forall>s e. Row_Scan (select_bo_user d tkn) user_dests (m0, zero_NullTime, zero_NullTime) = (s, Some e)
          \<longrightarrow> (errors_Is e ErrNoRows \<longrightarrow> ret_err (Get d tkn m0) = Some ErrInvalidUserToken)
            \<and> (\<not> errors_Is e ErrNoRows \<longrightarrow>
                 ret_err (Get d tkn m0)
                   = Some (ErrorString (''there was an unexpected error reading from the database: ''
                                         @ error_text e))
                 \<and> ret_err (Get d tkn m0) \<noteq> Some ErrInvalidUserToken
                 \<and> ret_err (Get d tkn m0) \<noteq> Some ErrUserInActive))"
proof (intro conjI impI allI)
  assume "select_bo_user d tkn = NoRow"
  then show "ret_err (Get d tkn m0) = Some ErrInvalidUserToken"
    by (simp add: Get_def ret_err_def)
next
  fix s e
  assume sc: "Row_Scan (select_bo_user d tkn) user_dests (m0, zero_NullTime, zero_NullTime) = (s, Some e)"
  obtain m ll pe where s: "s = (m, ll, pe)" by (cases s)
  note ec = Get_error_cases [OF sc [unfolded s]]
  { assume "errors_Is e ErrNoRows"
    then show "ret_err (Get d tkn m0) = Some ErrInvalidUserToken"
      by (simp add: ec ret_err_def) }
  { assume n: "\<not> errors_Is e ErrNoRows"
    then show "ret_err (Get d tkn m0)
                 = Some (ErrorString (''there was an unexpected error reading from the database: ''
                                       @ error_text e))"
      by (simp add: ec ret_err_def)
    from n show "ret_err (Get d tkn m0) \<noteq> Some ErrInvalidUserToken"
      by (simp add: ec ret_err_def)
    from n show "ret_err (Get d tkn m0) \<noteq> Some ErrUserInActive"
      by (simp add: ec ret_err_def) }
qed

theorem C3_unknown_subject_or_storage_error_witness:
  "select_bo_user demo_db ''nobody'' = NoRow
   \<and> ret_err (Get demo_db ''nobody'' zero_User) = Some ErrInvalidUserToken
   \<and> Row_Scan (select_bo_user demo_db_down ''u-42'') user_dests (zero_User, zero_NullTime, zero_NullTime)
       = ((zero_User, zero_NullTime, zero_NullTime), Some conn_refused)
   \<and> \<not> errors_Is conn_refused ErrNoRows
   \<and> ret_err (Get demo_db_down ''u-42'' zero_User)
       = Some (ErrorString (''there was an unexpected error reading from the database: ''
                             @ ''dial tcp 127.0.0.1:3306: connect: connection refused''))"
proof -
  have a: "select_bo_user demo_db ''nobody'' = NoRow"
    by (simp add: demo_db_def)
  have b: "Row_Scan (select_bo_user demo_db_down ''u-42'') user_dests (zero_User, zero_NullTime, zero_NullTime)
           = ((zero_User, zero_NullTime, zero_NullTime), Some conn_refused)"
    by (simp add: demo_db_down_def)
  have c: "\<not> errors_Is conn_refused ErrNoRows"
    by (simp add: conn_refused_def)
  from C3_unknown_subject_or_storage_error [of demo_db "''nobody''" zero_User] a
  have r1: "ret_err (Get demo_db ''nobody'' zero_User) = Some ErrInvalidUserToken" by blast
  from C3_unknown_subject_or_storage_error [of demo_db_down "''u-42''" zero_User] b c
  have r2: "ret_err (Get demo_db_down ''u-42'' zero_User)
       = Some (ErrorString (''there was an unexpected error reading from the database: ''
                             @ error_text conn_refused))" by blast
  from a b c r1 r2 show ?thesis by (simp add: conn_refused_def)
qed

subsection \<open>Permissions when the permission lookup fails\<close>

text \<open>
  Claim C4, as stated, fails when the permission \<^verbatim>\<open>Scan\<close> fails part-way through the row.
  In \<open>demo_db_null_flag\<close> the user row is active and the permission row has
  \<open>manage_tariff\<close> set and NULL in \<open>manage_permits\<close>: the lookup fails (the error is only
  logged), \<open>GetUser\<close> returns no error, and the returned user has \<open>ManageTariff\<close> set.
\<close>

theorem C4_counterexample:
  "Row_Scan (select_bo_user demo_db_null_flag ''u-42'') user_dests (zero_User, zero_NullTime, zero_NullTime)
     = ((zero_User\<lparr>ID := 42, Name := ''Ann'', Email := ''ann@example.org'', Active := True,
                    Entered := 1600000000, EnteredBy := 1, Tkn := ''u-42'', ClientId := 3,
                    UserType := ''admin''\<rparr>,
         \<lparr>Time = 1700000000, Valid = True\<rparr>, \<lparr>Time = 0, Valid = False\<rparr>), None)
   \<and> snd (Row_Scan (select_bo_user_security demo_db_null_flag 42) security_dests zero_User)
       = Some null_to_bool
   \<and> ret_err (GetUser demo_db_null_flag ''u-42'') = None
   \<and> ManageTariff (Permissions (ret_user (GetUser demo_db_null_flag ''u-42'')))
   \<and> \<not> all_flags_false (Permissions (ret_user (GetUser demo_db_null_flag ''u-42'')))"
  by (simp add: demo_defs model_defs ret_defs all_flags_false_def)

text \<open>
  Claim C4, amended. When the user row is found and active, \<open>Get\<close> returns no error
  whatever the permission lookup does, and the permissions it returns are exactly what
  the permission \<^verbatim>\<open>Scan\<close> left in the receiver, whose own permissions the first \<^verbatim>\<open>Scan\<close> and
  the two copies did not touch. They are the receiver's when no row matches, when the
  query fails with \<open>e\<close> and when \<^verbatim>\<open>Scan\<close> fails on the first column. For a receiver with
  every flag false, and so for \<open>GetUser\<close>, every returned flag is false if and only if no
  column stored before \<^verbatim>\<open>Scan\<close> stopped held true. An error of the lookup is logged as a
  warning.
\<close>

theorem C4_permissions_after_lookup:
  assumes "Row_Scan (select_bo_user d tkn) user_dests (m0, zero_NullTime, zero_NullTime)
             = ((m, ll, pe), None)"
    and "Active m"
  shows "ret_err (Get d tkn m0) = None
       \<and> Permissions (ret_user (Get d tkn m0))
           = Permissions (fst (Row_Scan (select_bo_user_security d (ID m)) security_dests
                                 (after_gate m ll pe)))
       \<and> Permissions (after_gate m ll pe) = Permissions m0
       \<and> (select_bo_user_security d (ID m) = NoRow
            \<or> select_bo_user_security d (ID m) = QueryError e
            \<or> (\<exists>r cl e'. select_bo_user_security d (ID m) = Row r cl \<and> c_manage_tariff r = Inl e')
          \<longrightarrow> Permissions (ret_user (Get d tkn m0)) = Permissions m0)
       \<and> (all_flags_false (Permissions m0)
          \<longrightarrow> (all_flags_false (Permissions (ret_user (Get d tkn m0)))
                \<longleftrightarrow> \<not> lookup_stored_true (select_bo_user_security d (ID m))))
       \<and> (m0 = zero_User
          \<longrightarrow> (all_flags_false (Permissions (ret_user (GetUser d tkn)))
                \<longleftrightarrow> \<not> lookup_stored_true (select_bo_user_security d (ID m))))
       \<and> (\<forall>w. snd (Row_Scan (select_bo_user_security d (ID m)) security_dests (after_gate m ll pe)) = Some w
              \<longrightarrow> LogWarn w \<in> set (ret_events (Get d tkn m0)))"
proof -
  let ?m1 = "after_gate m ll pe"
  let ?q = "select_bo_user_security d (ID m)"
  note ga = Get_active [OF assms]
  have id: "ID ?m1 = ID m" by (simp add: after_gate_keeps)
  have pm: "Permissions ?m1 = Permissions m0"
    using Row_Scan_keeps [of "\<lambda>s. Permissions (fst s)" user_dests "select_bo_user d tkn"
            "(m0, zero_NullTime, zero_NullTime)"] assms(1)
    by (simp add: user_dests_Permissions after_gate_keeps)
  have e: "ret_err (Get d tkn m0) = None"
    by (simp add: ga ret_err_def)
  have p: "Permissions (ret_user (Get d tkn m0)) = Permissions (fst (Row_Scan ?q security_dests ?m1))"
    by (simp add: ga ret_user_def load_locations_keeps load_permissions_user id)
  have f: "?q = NoRow \<or> ?q = QueryError e \<or> (\<exists>r cl e'. ?q = Row r cl \<and> c_manage_tariff r = Inl e')
           \<longrightarrow> Permissions (ret_user (Get d tkn m0)) = Permissions m0"
    using Row_Scan_security_first_column(1) [of ?q e ?m1] p pm by auto
  have a: "all_flags_false (Permissions m0)
           \<longrightarrow> (all_flags_false (Permissions (ret_user (Get d tkn m0))) \<longleftrightarrow> \<not> lookup_stored_true ?q)"
    using Row_Scan_security_flags [of ?m1 ?q] p pm by simp
  have z: "m0 = zero_User
           \<longrightarrow> (all_flags_false (Permissions (ret_user (GetUser d tkn))) \<longleftrightarrow> \<not> lookup_stored_true ?q)"
    using a by (auto simp: GetUser_def zero_User_def zero_Permissions_def all_flags_false_def)
  have w: "\<forall>w. snd (Row_Scan ?q security_dests ?m1) = Some w \<longrightarrow> LogWarn w \<in> set (ret_events (Get d tkn m0))"
    using load_permissions_logged [of d ?m1] by (simp add: ga ret_events_def id)
  from e p pm f a z w show ?thesis by blast
qed

theorem C4_permissions_after_lookup_witness:
  "Row_Scan (select_bo_user demo_db_null_later ''u-42'') user_dests
       (zero_User, zero_NullTime, zero_NullTime)
     = ((zero_User\<lparr>ID := 42, Name := ''Ann'', Email := ''ann@example.org'', Active := True,
                    Entered := 1600000000, EnteredBy := 1, Tkn := ''u-42'', ClientId := 3,
                    UserType := ''admin''\<rparr>,
         \<lparr>Time = 1700000000, Valid = True\<rparr>, \<lparr>Time = 0, Valid = False\<rparr>), None)
   \<and> \<not> lookup_stored_true (select_bo_user_security demo_db_null_later 42)
   \<and> ret_err (GetUser demo_db_null_later ''u-42'') = None
   \<and> all_flags_false (Permissions (ret_user (GetUser demo_db_null_later ''u-42'')))
   \<and> LogWarn null_to_bool \<in> set (ret_events (GetUser demo_db_null_later ''u-42''))"
proof -
  let ?d = "demo_db_null_later"
  let ?m = "zero_User\<lparr>ID := 42, Name := ''Ann'', Email := ''ann@example.org'', Active := True,
                    Entered := 1600000000, EnteredBy := 1, Tkn := ''u-42'', ClientId := 3,
                    UserType := ''admin''\<rparr>"
  let ?ll = "\<lparr>Time = 1700000000, Valid = True\<rparr>"
  let ?pe = "\<lparr>Time = 0, Valid = False\<rparr>"
  have h1: "Row_Scan (select_bo_user ?d ''u-42'') user_dests (zero_User, zero_NullTime, zero_NullTime)
     = ((?m, ?ll, ?pe), None)"
    by (simp add: demo_db_null_later_def demo_defs model_defs)
  have h2: "Active ?m" by simp
  have h3: "\<not> lookup_stored_true (select_bo_user_security ?d (ID ?m))"
    by (simp add: demo_db_null_later_def demo_defs lookup_stored_true_def security_cells_def)
  have h4: "snd (Row_Scan (select_bo_user_security ?d (ID ?m)) security_dests (after_gate ?m ?ll ?pe))
            = Some null_to_bool"
    by (simp add: demo_db_null_later_def demo_defs security_dests_def dest_def)
  have h5: "select_bo_user_security ?d 42
            = Row (demo_security_row\<lparr>c_manage_users := Inr False, c_manage_permits := Inl null_to_bool\<rparr>) None"
    by (simp add: demo_db_null_later_def demo_defs)
  note t = C4_permissions_after_lookup [OF h1 h2, of conn_refused]
  from t have e: "ret_err (GetUser ?d ''u-42'') = None"
    by (simp add: GetUser_def)
  from t h3 have a: "all_flags_false (Permissions (ret_user (GetUser ?d ''u-42'')))"
    by blast
  from t h4 have w: "LogWarn null_to_bool \<in> set (ret_events (GetUser ?d ''u-42''))"
    unfolding GetUser_def by blast
  from h3 have h3': "\<not> lookup_stored_true (select_bo_user_security ?d 42)" by simp
  from h1 h3' e a w show ?thesis by blast
qed

subsection \<open>The location grants\<close>

text \<open>
  Claim C8. Whenever \<open>Get\<close> returns no error, \<open>Locations\<close> is an initialised map: empty
  when the location query failed, and otherwise made of exactly the rows that scanned (a
  later row with the same identifier wins), so a failure part-way gives a partial map.
  Whatever the location query answers (\<open>g\<close>), the call still returns no error and an
  initialised map.
\<close>

theorem C8_locations_initialised:
  assumes "ret_err (Get d tkn m0) = None"
  shows "Locations (ret_user (Get d tkn m0))
           = Some (case select_bo_user_locations d (ID (ret_user (Get d tkn m0))) of
                     QueryFailed e \<Rightarrow> Map.empty
                   | Rows rs \<Rightarrow> map_of (rev (scanned_rows rs)))
       \<and> Locations (ret_user (Get d tkn m0)) \<noteq> None
       \<and> ret_err (Get (d\<lparr>select_bo_user_locations := g\<rparr>) tkn m0) = None
       \<and> Locations (ret_user (Get (d\<lparr>select_bo_user_locations := g\<rparr>) tkn m0)) \<noteq> None"
proof -
  from assms obtain m ll pe where
    sc: "Row_Scan (select_bo_user d tkn) user_dests (m0, zero_NullTime, zero_NullTime) = ((m, ll, pe), None)"
    and act: "Active m"
    by (auto simp: Get_no_error_iff)
  let ?m2 = "fst (load_permissions d (after_gate m ll pe))"
  have u: "ret_user (Get d tkn m0) = fst (load_locations d ?m2)"
    by (simp add: Get_active [OF sc act] ret_user_def)
  have i: "ID (fst (load_locations d ?m2)) = ID ?m2"
    by (simp add: load_locations_keeps)
  have a: "Locations (ret_user (Get d tkn m0))
           = Some (case select_bo_user_locations d (ID (ret_user (Get d tkn m0))) of
                     QueryFailed e \<Rightarrow> Map.empty
                   | Rows rs \<Rightarrow> map_of (rev (scanned_rows rs)))"
    unfolding u i by (simp add: load_locations_user)
  have sc': "Row_Scan (select_bo_user (d\<lparr>select_bo_user_locations := g\<rparr>) tkn) user_dests
               (m0, zero_NullTime, zero_NullTime) = ((m, ll, pe), None)"
    using sc by simp
  have c: "ret_err (Get (d\<lparr>select_bo_user_locations := g\<rparr>) tkn m0) = None"
    by (simp add: Get_active [OF sc' act] ret_err_def)
  have d: "Locations (ret_user (Get (d\<lparr>select_bo_user_locations := g\<rparr>) tkn m0)) \<noteq> None"
    by (simp add: Get_active [OF sc' act] ret_user_def load_locations_user)
  from a c d show ?thesis by simp
qed

theorem C8_locations_initialised_witness:
  "ret_err (Get (demo_db\<lparr>select_bo_user_locations := (\<lambda>i. Rows [Inr (7, ''North Depot''), Inl conn_refused])\<rparr>)
             ''u-42'' zero_User) = None
   \<and> Locations (ret_user (Get (demo_db\<lparr>select_bo_user_locations :=
                                   (\<lambda>i. Rows [Inr (7, ''North Depot''), Inl conn_refused])\<rparr>)
                              ''u-42'' zero_User))
       = Some [7 \<mapsto> ''North Depot'']
   \<and> ret_err (Get (demo_db\<lparr>select_bo_user_locations := (\<lambda>i. QueryFailed conn_refused)\<rparr>)
                ''u-42'' zero_User) = None
   \<and> Locations (ret_user (Get (demo_db\<lparr>select_bo_user_locations := (\<lambda>i. QueryFailed conn_refused)\<rparr>)
                ''u-42'' zero_User)) \<noteq> None"
proof -
  let ?d = "demo_db\<lparr>select_bo_user_locations := (\<lambda>i. Rows [Inr (7, ''North Depot''), Inl conn_refused])\<rparr>"
  have h: "ret_err (Get ?d ''u-42'' zero_User) = None"
    by (simp add: demo_defs model_defs ret_defs)
  have i: "select_bo_user_locations ?d (ID (ret_user (Get ?d ''u-42'' zero_User)))
             = Rows [Inr (7, ''North Depot''), Inl conn_refused]"
    by simp
  show ?thesis
    using C8_locations_initialised [OF h, of "\<lambda>i. QueryFailed conn_refused"] h
    by (simp add: i)
qed

subsection \<open>The last-login stamp\<close>

text \<open>
  Claim C9. What \<open>Get\<close> returns, the user and the error, does not depend on the answer
  \<open>h\<close> to the last-login write; and a call that reaches the write (it sent the \<^verbatim>\<open>UPDATE\<close>)
  returns no error and the same loaded user, whether the write fails or not.
\<close>

theorem C9_last_login_failure_ignored:
  "fst (Get (d\<lparr>update_last_login := h\<rparr>) tkn m0) = fst (Get d tkn m0)
   \<and> (DbExec sql_last_login args \<in> set (ret_events (Get d tkn m0))
        \<longrightarrow> ret_err (Get d tkn m0) = None
          \<and> ret_err (Get (d\<lparr>update_last_login := h\<rparr>) tkn m0) = None
          \<and> ret_user (Get (d\<lparr>update_last_login := h\<rparr>) tkn m0) = ret_user (Get d tkn m0))"
proof -
  let ?d' = "d\<lparr>update_last_login := h\<rparr>"
  obtain m ll pe err where sc:
    "Row_Scan (select_bo_user d tkn) user_dests (m0, zero_NullTime, zero_NullTime) = ((m, ll, pe), err)"
    by (cases "Row_Scan (select_bo_user d tkn) user_dests (m0, zero_NullTime, zero_NullTime)") auto
  then have sc': "Row_Scan (select_bo_user ?d' tkn) user_dests (m0, zero_NullTime, zero_NullTime)
                   = ((m, ll, pe), err)"
    by simp
  show ?thesis
  proof (cases err)
    case (Some e)
    show ?thesis
      using Get_error_cases [OF sc [unfolded Some]] Get_error_cases [OF sc' [unfolded Some]]
      by (simp add: ret_defs)
  next
    case None
    show ?thesis
    proof (cases "Active m")
      case False
      show ?thesis
        using Get_inactive [OF sc [unfolded None] False] Get_inactive [OF sc' [unfolded None] False]
        by (simp add: ret_defs)
    next
      case True
      show ?thesis
        using Get_active [OF sc [unfolded None] True] Get_active [OF sc' [unfolded None] True]
        by (simp add: ret_defs load_permissions_upd load_locations_upd)
    qed
  qed
qed

theorem C9_last_login_failure_ignored_witness:
  "DbExec sql_last_login [ArgInt 42] \<in> set (ret_events (Get demo_db ''u-42'' zero_User))
   \<and> ret_err (Get (demo_db\<lparr>update_last_login := (\<lambda>i. Some conn_refused)\<rparr>) ''u-42'' zero_User) = None
   \<and> fst (Get (demo_db\<lparr>update_last_login := (\<lambda>i. Some conn_refused)\<rparr>) ''u-42'' zero_User)
       = fst (Get demo_db ''u-42'' zero_User)
   \<and> ManageUsers (Permissions (ret_user (Get (demo_db\<lparr>update_last_login := (\<lambda>i. Some conn_refused)\<rparr>)
                                             ''u-42'' zero_User)))"
proof -
  have h: "DbExec sql_last_login [ArgInt 42] \<in> set (ret_events (Get demo_db ''u-42'' zero_User))"
    by (simp add: demo_defs model_defs ret_defs)
  have p: "ManageUsers (Permissions (ret_user (Get demo_db ''u-42'' zero_User)))"
    by (simp add: demo_defs model_defs ret_defs)
  show ?thesis
    using C9_last_login_failure_ignored [where d = demo_db and h = "\<lambda>i. Some conn_refused"
            and tkn = "''u-42''" and ?m0.0 = zero_User and args = "[ArgInt 42]"] h p
    by simp
qed

subsection \<open>What is returned next to an error\<close>

text \<open>
  Claim C10. The error return is not atomic. When the row of a deactivated account is
  scanned, \<open>GetUser\<close> returns \<open>ErrUserInActive\<close> together with a \<open>User\<close> that already carries
  the scanned identifier, name, email, creation instant, creator, token, client and user
  type (\<open>Active\<close> is false; the two nullable instants are not copied yet). On every error
  path \<open>Locations\<close> is still the nil map for \<open>GetUser\<close>, and for \<open>Get\<close> whatever the receiver
  held.
\<close>

theorem C10_error_return_not_atomic:
  "(select_bo_user d tkn =
      Row \<lparr>c_id = Inr i, c_name = Inr n, c_email = Inr em, c_active = Inr False,
           c_last_login = Inr lg, c_entered = Inr en, c_entered_by = Inr eb, c_tkn = Inr tk,
           c_password_expiry = Inr px, c_clientid = Inr ci, c_user_type = Inr ut\<rparr> None
     \<longrightarrow> fst (GetUser d tkn)
           = (zero_User\<lparr>ID := i, Name := n, Email := em, Entered := en, EnteredBy := eb,
                        Tkn := tk, ClientId := ci, UserType := ut\<rparr>,
              Some ErrUserInActive))
   \<and> (ret_err (GetUser d tkn) \<noteq> None \<longrightarrow> Locations (ret_user (GetUser d tkn)) = None)
   \<and> (ret_err (Get d tkn m0) \<noteq> None \<longrightarrow> Locations (ret_user (Get d tkn m0)) = Locations m0)"
proof -
  have loc: "ret_err (Get d tkn m) \<noteq> None \<Longrightarrow> Locations (ret_user (Get d tkn m)) = Locations m" for m
  proof -
    assume ne: "ret_err (Get d tkn m) \<noteq> None"
    obtain m' ll pe err where sc:
      "Row_Scan (select_bo_user d tkn) user_dests (m, zero_NullTime, zero_NullTime) = ((m', ll, pe), err)"
      by (cases "Row_Scan (select_bo_user d tkn) user_dests (m, zero_NullTime, zero_NullTime)") auto
    have k: "Locations m' = Locations m"
      using Row_Scan_keeps [of "\<lambda>s. Locations (fst s)" user_dests "select_bo_user d tkn"
              "(m, zero_NullTime, zero_NullTime)"] sc
      by (simp add: user_dests_Locations)
    show ?thesis
    proof (cases err)
      case (Some e)
      then show ?thesis using Get_error_cases [OF sc [unfolded Some]] k by (simp add: ret_defs)
    next
      case None
      show ?thesis
      proof (cases "Active m'")
        case True
        then show ?thesis using Get_active [OF sc [unfolded None] True] ne by (simp add: ret_defs)
      next
        case False
        then show ?thesis using Get_inactive [OF sc [unfolded None] False] k by (simp add: ret_defs)
      qed
    qed
  qed
  have a: "select_bo_user d tkn =
      Row \<lparr>c_id = Inr i, c_name = Inr n, c_email = Inr em, c_active = Inr False,
           c_last_login = Inr lg, c_entered = Inr en, c_entered_by = Inr eb, c_tkn = Inr tk,
           c_password_expiry = Inr px, c_clientid = Inr ci, c_user_type = Inr ut\<rparr> None
     \<longrightarrow> fst (GetUser d tkn)
           = (zero_User\<lparr>ID := i, Name := n, Email := em, Entered := en, EnteredBy := eb,
                        Tkn := tk, ClientId := ci, UserType := ut\<rparr>,
              Some ErrUserInActive)"
    by (simp add: GetUser_def Get_def user_dests_def dest_def zero_User_def)
  have b: "ret_err (GetUser d tkn) \<noteq> None \<longrightarrow> Locations (ret_user (GetUser d tkn)) = None"
    using loc [of zero_User] by (simp add: GetUser_def zero_User_def)
  from a b loc [of m0] show ?thesis by blast
qed

theorem C10_error_return_not_atomic_witness:
  "fst (GetUser demo_db_inactive ''u-42'') = (demo_inactive_user, Some ErrUserInActive)
   \<and> demo_inactive_user \<noteq> zero_User
   \<and> Locations demo_inactive_user = None
   \<and> ret_err (GetUser demo_db_down ''u-42'') \<noteq> None
   \<and> Locations (ret_user (GetUser demo_db_down ''u-42'')) = None"
proof -
  have r: "select_bo_user demo_db_inactive ''u-42'' =
      Row \<lparr>c_id = Inr 42, c_name = Inr ''Ann'', c_email = Inr ''ann@example.org'', c_active = Inr False,
           c_last_login = Inr (Some 1700000000), c_entered = Inr 1600000000, c_entered_by = Inr 1,
           c_tkn = Inr ''u-42'', c_password_expiry = Inr None, c_clientid = Inr 3,
           c_user_type = Inr ''admin''\<rparr> None"
    by (simp add: demo_defs)
  have e: "ret_err (GetUser demo_db_down ''u-42'') \<noteq> None"
    by (simp add: demo_defs model_defs ret_defs)
  have n: "demo_inactive_user \<noteq> zero_User"
  proof
    assume "demo_inactive_user = zero_User"
    then have "ID demo_inactive_user = ID zero_User" by simp
    then show False by (simp add: demo_inactive_user_def zero_User_def)
  qed
  have l: "Locations demo_inactive_user = None"
    by (simp add: demo_inactive_user_def zero_User_def)
  from C10_error_return_not_atomic [where d = demo_db_inactive and tkn = "''u-42''" and i = 42
         and n = "''Ann''" and em = "''ann@example.org''" and lg = "Some 1700000000" and en = 1600000000
         and eb = 1 and tk = "''u-42''" and px = None and ci = 3 and ut = "''admin''"
         and ?m0.0 = zero_User] r
  have a: "fst (GetUser demo_db_inactive ''u-42'') = (demo_inactive_user, Some ErrUserInActive)"
    by (simp add: demo_inactive_user_def)
  from C10_error_return_not_atomic [where d = demo_db_down and tkn = "''u-42''" and ?m0.0 = zero_User] e
  have b: "Locations (ret_user (GetUser demo_db_down ''u-42'')) = None"
    by blast
  from a n l e b show ?thesis by blast
qed

section \<open>Properties of the credential codec\<close>

lemma encodeURL_length: "length encodeURL = 64"
  by (simp add: encodeURL_def)

lemma encodeURL_distinct: "distinct encodeURL"
  by (simp add: encodeURL_def)

lemma decodeMap_enc_char: "v < 64 \<Longrightarrow> decodeMap (enc_char v) = Some v"
  using map_of_zip_nth [of encodeURL "[0..<64]" v]
  by (simp add: decodeMap_def enc_char_def encodeURL_length encodeURL_distinct)

lemma decodeMap_SomeD: "decodeMap c = Some v \<Longrightarrow> v < 64 \<and> c = enc_char v"
proof -
  assume "decodeMap c = Some v"
  then have "(c, v) \<in> set (zip encodeURL [0..<64])"
    by (simp add: decodeMap_def map_of_SomeD)
  then obtain i where "i < 64" "encodeURL ! i = c" "[0..<64] ! i = v"
    by (auto simp: in_set_zip encodeURL_length)
  then show ?thesis by (simp add: enc_char_def)
qed

lemma enc_char_in: "v < 64 \<Longrightarrow> enc_char v \<in> set encodeURL"
  by (simp add: enc_char_def encodeURL_length)

lemma enc_char_not_special:
  assumes "v < 64"
  shows "enc_char v \<noteq> CHR ''=''" "enc_char v \<noteq> CHR ''.''" "\<not> is_newline (enc_char v)"
  using enc_char_in [OF assms] by (auto simp: encodeURL_def is_newline_def)

lemma decodeMap_special:
  "decodeMap (CHR ''='') = None" "decodeMap (CHR ''.'') = None"
  "is_newline c \<Longrightarrow> decodeMap c = None"
proof -
  show "decodeMap (CHR ''='') = None"
    using decodeMap_SomeD [of "CHR ''=''"] enc_char_not_special(1) by (cases "decodeMap (CHR ''='')") auto
  show "decodeMap (CHR ''.'') = None"
    using decodeMap_SomeD [of "CHR ''.''"] enc_char_not_special(2) by (cases "decodeMap (CHR ''.'')") auto
  show "is_newline c \<Longrightarrow> decodeMap c = None"
    using decodeMap_SomeD [of c] enc_char_not_special(3) by (cases "decodeMap c") auto
qed

lemma byte_less: "byte c < 256"
  by (simp add: byte_def)

lemma char_of_byte: "char_of (byte c) = c"
  by (simp add: byte_def)

lemma sextets_aux:
  fixes x y bd bm cd cm :: nat
  shows "x * 262144 + (y * 16 + bd) * 4096 + (bm * 4 + cd) * 64 + cm
         = (4 * x + y) * 65536 + (16 * bd + bm) * 256 + (64 * cd + cm)"
  by simp

lemma sextets:
  fixes a b c :: nat
  shows "(a div 4) * 262144 + ((a mod 4) * 16 + b div 16) * 4096 + ((b mod 16) * 4 + c div 64) * 64 + c mod 64
         = a * 65536 + b * 256 + c"
  unfolding sextets_aux mult_div_mod_eq ..

lemma sextet_aux_bounds:
  fixes y bd :: nat
  shows "y < 4 \<Longrightarrow> bd < 16 \<Longrightarrow> y * 16 + bd < 64" "bd < 16 \<Longrightarrow> y < 4 \<Longrightarrow> bd * 4 + y < 64"
  by simp_all

lemma sextet_bounds:
  "byte a div 4 < 64" "(byte a mod 4) * 16 + byte b div 16 < 64"
  "(byte b mod 16) * 4 + byte c div 64 < 64" "byte c mod 64 < 64"
  "(byte a mod 4) * 16 < 64" "(byte b mod 16) * 4 < 64"
proof -
  have a: "byte a div 4 < 64" "byte b div 16 < 16" "byte c div 64 < 4"
    using byte_less [of a] byte_less [of b] byte_less [of c]
    by (simp_all add: less_mult_imp_div_less)
  have m: "byte a mod 4 < 4" "byte b mod 16 < 16" by simp_all
  show "byte a div 4 < 64" by (rule a)
  show "(byte a mod 4) * 16 + byte b div 16 < 64" by (rule sextet_aux_bounds(1) [OF m(1) a(2)])
  show "(byte b mod 16) * 4 + byte c div 64 < 64" by (rule sextet_aux_bounds(2) [OF m(2) a(3)])
  show "byte c mod 64 < 64" by simp
  show "(byte a mod 4) * 16 < 64" using sextet_aux_bounds(1) [OF m(1), of 0] by simp
  show "(byte b mod 16) * 4 < 64" using sextet_aux_bounds(2) [OF m(2), of 0] by simp
qed

lemma char_of_drop_high: "char_of (A * 256 + B :: nat) = (char_of B :: char)"
proof -
  have "(A * 256 + B) mod 256 = B mod 256" by simp
  then show ?thesis by (metis char_of_mod_256)
qed

lemma split_val:
  fixes A B C :: nat
  assumes "B < 256" "C < 256"
  shows "(A * 65536 + B * 256 + C) div 65536 = A"
    and "(A * 65536 + B * 256 + C) div 256 = A * 256 + B"
proof -
  have "B * 256 + C < 65536" using assms by simp
  then show "(A * 65536 + B * 256 + C) div 65536 = A" by simp
  have "(A * 65536 + B * 256 + C) = (A * 256 + B) * 256 + C" by simp
  then show "(A * 65536 + B * 256 + C) div 256 = A * 256 + B" using assms(2) by simp
qed

lemma val_bytes:
  assumes "C < 256"
  shows "[char_of ((byte a * 65536 + byte b * 256 + C) div 65536),
          char_of ((byte a * 65536 + byte b * 256 + C) div 256)] = [a, b]"
  using split_val [OF byte_less [of b] assms, of "byte a"]
  by (simp add: char_of_drop_high char_of_byte)

lemma val_byte3: "(char_of (byte a * 65536 + byte b * 256 + byte c) :: char) = c"
proof -
  have "byte a * 65536 + byte b * 256 + byte c = (byte a * 256 + byte b) * 256 + byte c" by simp
  then show ?thesis by (simp only: char_of_drop_high char_of_byte)
qed

lemma quantum_bytes_val:
  "quantum_bytes [v0, v1, v2, v3] n = take (n - 1) (val_chars (v0 * 262144 + v1 * 4096 + v2 * 64 + v3))"
  "quantum_bytes [v0, v1, v2] n = take (n - 1) (val_chars (v0 * 262144 + v1 * 4096 + v2 * 64 + 0))"
  "quantum_bytes [v0, v1] n = take (n - 1) (val_chars (v0 * 262144 + v1 * 4096 + 0 * 64 + 0))"
  by (simp_all add: quantum_bytes_def val_chars_def Let_def)

lemma val_chars_bytes:
  "val_chars (byte a * 65536 + byte b * 256 + byte c) = [a, b, c]"
  using val_bytes [OF byte_less [of c], of a b] val_byte3 [of a b c]
  by (simp add: val_chars_def)

lemma val_chars_take2:
  assumes "C < 256"
  shows "take 2 (val_chars (byte a * 65536 + byte b * 256 + C)) = [a, b]"
  using val_bytes [OF assms, of a b] by (simp add: val_chars_def)

lemma val_chars_take1:
  assumes "C < 65536"
  shows "take 1 (val_chars (byte a * 65536 + C)) = [a]"
  using assms by (simp add: val_chars_def char_of_byte)

lemma quantum_bytes_4:
  "quantum_bytes [byte a div 4, (byte a mod 4) * 16 + byte b div 16,
                  (byte b mod 16) * 4 + byte c div 64, byte c mod 64] 4 = [a, b, c]"
  by (simp only: quantum_bytes_val sextets val_chars_bytes) simp

lemma quantum_bytes_3:
  assumes "k < 4"
  shows "quantum_bytes [byte a div 4, (byte a mod 4) * 16 + byte b div 16, (byte b mod 16) * 4 + k] 3 = [a, b]"
proof -
  have k: "k * 64 < 256" using assms by simp
  have "k = (k * 64) div 64" by simp
  then have "(byte a div 4) * 262144 + ((byte a mod 4) * 16 + byte b div 16) * 4096
          + ((byte b mod 16) * 4 + k) * 64 + 0
        = byte a * 65536 + byte b * 256 + k * 64"
    using sextets [of "byte a" "byte b" "k * 64"] by simp
  then show ?thesis
    using val_chars_take2 [OF k, of a b] by (simp only: quantum_bytes_val) simp
qed

lemma quantum_bytes_2:
  assumes "k < 16"
  shows "quantum_bytes [byte a div 4, (byte a mod 4) * 16 + k] 2 = [a]"
proof -
  have k: "k * 4096 < 65536" using assms by simp
  have "(byte a div 4) * 262144 + ((byte a mod 4) * 16 + k) * 4096 + 0 * 64 + 0
        = byte a * 65536 + k * 4096"
    using sextets [of "byte a" "0" "0"] by simp
  then show ?thesis
    using val_chars_take1 [OF k, of a] by (simp only: quantum_bytes_val) simp
qed

lemma decode_quanta_4:
  assumes "v0 < 64" "v1 < 64" "v2 < 64" "v3 < 64"
  shows "decode_quanta (enc_char v0 # enc_char v1 # enc_char v2 # enc_char v3 # rest) []
         = map_option (\<lambda>out. quantum_bytes [v0, v1, v2, v3] 4 @ out) (decode_quanta rest [])"
  by (simp add: decodeMap_enc_char assms)

lemma decode_quanta_3:
  assumes "v0 < 64" "v1 < 64" "v2 < 64"
  shows "decode_quanta [enc_char v0, enc_char v1, enc_char v2, CHR ''=''] []
         = Some (quantum_bytes [v0, v1, v2] 3)"
  by (simp add: decodeMap_enc_char assms decodeMap_special is_newline_def)

lemma decode_quanta_2:
  assumes "v0 < 64" "v1 < 64"
  shows "decode_quanta [enc_char v0, enc_char v1, CHR ''='', CHR ''=''] []
         = Some (quantum_bytes [v0, v1] 2)"
  by (simp add: decodeMap_enc_char assms decodeMap_special is_newline_def)

lemma DecodeString_EncodeToString: "DecodeString (EncodeToString bs) = Some bs"
  unfolding DecodeString_def
proof (induction bs rule: EncodeToString.induct)
  case (1 a b c rest)
  then show ?case
    by (simp only: EncodeToString.simps decode_quanta_4 [OF sextet_bounds(1-4)] quantum_bytes_4) simp
next
  case (2 a b)
  show ?case
    using quantum_bytes_3 [of 0 a b]
    by (simp only: EncodeToString.simps decode_quanta_3 [OF sextet_bounds(1,2,6)]) simp
next
  case (3 a)
  show ?case
    using quantum_bytes_2 [of 0 a]
    by (simp only: EncodeToString.simps decode_quanta_2 [OF sextet_bounds(1,5)]) simp
next
  case 4
  show ?case by simp
qed

lemma encode_raw_alphabet: "set (encode_raw bs) \<subseteq> set encodeURL"
  by (induction bs rule: encode_raw.induct) (simp_all add: enc_char_in sextet_bounds)

lemma encode_raw_pad:
  "(if length (encode_raw bs) mod 4 > 0
    then encode_raw bs @ replicate (4 - length (encode_raw bs) mod 4) (CHR ''='')
    else encode_raw bs) = EncodeToString bs"
proof (induction bs rule: encode_raw.induct)
  case (1 a b c rest)
  have l: "length (encode_raw (a # b # c # rest)) mod 4 = length (encode_raw rest) mod 4"
    by simp
  show ?case
  proof (cases "length (encode_raw rest) mod 4 > 0")
    case True
    with 1 have "encode_raw rest @ replicate (4 - length (encode_raw rest) mod 4) (CHR ''='')
                 = EncodeToString rest" by simp
    with True show ?thesis unfolding l by simp
  next
    case False
    with 1 have "encode_raw rest = EncodeToString rest" by simp
    with False show ?thesis unfolding l by simp
  qed
next
  case (2 a b)
  have "length (encode_raw [a, b]) = 3" by simp
  moreover have "replicate (4 - 3 mod 4) (CHR ''='') = [CHR ''='']"
    by simp
  ultimately show ?case by simp
next
  case (3 a)
  have "length (encode_raw [a]) = 2" by simp
  moreover have "replicate (4 - 2 mod 4) (CHR ''='') = [CHR ''='', CHR ''='']"
    by (simp add: numeral_2_eq_2)
  ultimately show ?case by simp
next
  case 4
  show ?case by simp
qed

lemma TrimRight_pad:
  assumes "c \<notin> set xs"
  shows "TrimRight (xs @ replicate k c) c = xs"
proof -
  have "dropWhile (\<lambda>x. x = c) (replicate k c @ rev xs) = rev xs"
    using assms by (induction k) (auto simp: dropWhile_eq_self_iff hd_rev intro: last_in_set)
  then show ?thesis by (simp add: TrimRight_def)
qed

lemma EncodeSegment_raw: "EncodeSegment bs = encode_raw bs"
proof -
  have n: "CHR ''='' \<notin> set (encode_raw bs)"
    using encode_raw_alphabet [of bs] by (auto simp: encodeURL_def)
  have "EncodeToString bs = encode_raw bs @ replicate (if length (encode_raw bs) mod 4 > 0
          then 4 - length (encode_raw bs) mod 4 else 0) (CHR ''='')"
    using encode_raw_pad [of bs] by (simp split: if_splits)
  then show ?thesis
    unfolding EncodeSegment_def using TrimRight_pad [OF n] by simp
qed

lemma DecodeSegment_EncodeSegment: "DecodeSegment (EncodeSegment bs) = Some bs"
  unfolding EncodeSegment_raw DecodeSegment_def Let_def encode_raw_pad
  by (rule DecodeString_EncodeToString)

lemma split_dots_nonempty: "split_dots s \<noteq> []"
  by (induction s) (auto split: list.splits)

lemma split_dots_no_dot: "CHR ''.'' \<notin> set a \<Longrightarrow> split_dots a = [a]"
  by (induction a) auto

lemma split_dots_append:
  "CHR ''.'' \<notin> set a \<Longrightarrow> split_dots (a @ CHR ''.'' # r) = a # split_dots r"
  by (induction a) auto

lemma split_dots_parts: "p \<in> set (split_dots t) \<Longrightarrow> CHR ''.'' \<notin> set p"
proof (induction t arbitrary: p)
  case Nil
  then show ?case by simp
next
  case (Cons c cs)
  obtain q qs where q: "split_dots cs = q # qs"
    using split_dots_nonempty [of cs] by (cases "split_dots cs") auto
  show ?case
  proof (cases "c = CHR ''.''")
    case True
    with Cons show ?thesis by auto
  next
    case False
    with Cons q show ?thesis by auto
  qed
qed

lemma join_dots_Cons: "ps \<noteq> [] \<Longrightarrow> join_dots (p # ps) = p @ CHR ''.'' # join_dots ps"
  by (cases ps) simp_all

lemma join_dots_Cons_head: "join_dots ((c # q) # qs) = c # join_dots (q # qs)"
  by (cases qs) simp_all

lemma join_split_dots: "join_dots (split_dots t) = t"
proof (induction t)
  case Nil
  show ?case by simp
next
  case (Cons c cs)
  obtain q qs where q: "split_dots cs = q # qs"
    using split_dots_nonempty [of cs] by (cases "split_dots cs") auto
  show ?case
  proof (cases "c = CHR ''.''")
    case True
    then have "join_dots (split_dots (c # cs)) = [] @ CHR ''.'' # join_dots (split_dots cs)"
      using join_dots_Cons [OF split_dots_nonempty, of "[]" cs] by simp
    with Cons True show ?thesis by simp
  next
    case False
    then have "join_dots (split_dots (c # cs)) = c # join_dots (q # qs)"
      using q by (simp add: join_dots_Cons_head)
    with Cons q show ?thesis by simp
  qed
qed

lemma split_dots_join:
  assumes "split_dots t = [a, b, c]"
  shows "t = a @ CHR ''.'' # b @ CHR ''.'' # c"
proof -
  have "join_dots (split_dots t) = a @ CHR ''.'' # b @ CHR ''.'' # c"
    unfolding assms by simp
  then show ?thesis by (simp only: join_split_dots)
qed

lemma split_dots_three:
  assumes "CHR ''.'' \<notin> set a" "CHR ''.'' \<notin> set b" "CHR ''.'' \<notin> set c"
  shows "split_dots (a @ CHR ''.'' # b @ CHR ''.'' # c) = [a, b, c]"
  using assms by (simp add: split_dots_append split_dots_no_dot)

lemma split_dots_four:
  assumes "CHR ''.'' \<notin> set a" "CHR ''.'' \<notin> set b" "CHR ''.'' \<notin> set c"
  shows "length (split_dots (a @ CHR ''.'' # b @ CHR ''.'' # c @ CHR ''.'' # d)) \<noteq> 3"
  using assms split_dots_nonempty [of d] by (simp add: split_dots_append)

lemma byte_char_of: "n < 256 \<Longrightarrow> byte (char_of n) = n"
  by (simp add: byte_def)

lemma byte_eq_iff: "(c = d) = (byte c = byte d)"
  by (auto simp: byte_def)

lemma digit_char:
  assumes "m < 10"
  shows "is_digit (char_of (0x30 + m))" "byte (char_of (0x30 + m)) - 0x30 = m"
    "char_of (0x30 + m) \<noteq> CHR ''-''" "(char_of (0x30 + m) = CHR ''0'') = (m = 0)"
    "byte (char_of (0x30 + m)) = 0x30 + m"
proof -
  show b: "byte (char_of (0x30 + m)) = 0x30 + m"
    using assms by (simp add: byte_char_of)
  show "is_digit (char_of (0x30 + m))" using assms by (simp add: is_digit_def b)
  show "byte (char_of (0x30 + m)) - 0x30 = m" by (simp add: b)
  show "char_of (0x30 + m) \<noteq> CHR ''-''"
    unfolding byte_eq_iff b by (simp add: byte_def)
  show "(char_of (0x30 + m) = CHR ''0'') = (m = 0)"
    unfolding byte_eq_iff b by (simp add: byte_def)
qed

lemma parse_digits_nat_digits:
  "parse_digits (nat_digits n @ r) acc k
     = parse_digits r (acc * 10 ^ length (nat_digits n) + n) (k + length (nat_digits n))"
proof (induction n arbitrary: r acc k rule: nat_digits.induct)
  case (1 n)
  show ?case
  proof (cases "n < 10")
    case True
    then have nd: "nat_digits n = [char_of (0x30 + n)]" by (simp add: nat_digits.simps [of n])
    show ?thesis
      unfolding nd using digit_char(1,2) [OF True] by simp
  next
    case False
    let ?d = "char_of (0x30 + n mod 10)"
    have m: "n mod 10 < 10" by simp
    have nd: "nat_digits n = nat_digits (n div 10) @ [?d]"
      using False by (simp add: nat_digits.simps [of n])
    have "parse_digits (nat_digits n @ r) acc k
          = parse_digits (nat_digits (n div 10) @ (?d # r)) acc k"
      unfolding nd by simp
    also have "\<dots> = parse_digits (?d # r) (acc * 10 ^ length (nat_digits (n div 10)) + n div 10)
                        (k + length (nat_digits (n div 10)))"
      using "1.IH" [OF False] by simp
    also have "\<dots> = parse_digits r ((acc * 10 ^ length (nat_digits (n div 10)) + n div 10) * 10 + n mod 10)
                        (Suc (k + length (nat_digits (n div 10))))"
      using digit_char(1,2) [OF m] by simp
    also have "(acc * 10 ^ length (nat_digits (n div 10)) + n div 10) * 10 + n mod 10
               = acc * 10 ^ length (nat_digits n) + n"
      unfolding nd by (simp add: algebra_simps)
    also have "Suc (k + length (nat_digits (n div 10))) = k + length (nat_digits n)"
      unfolding nd by simp
    finally show ?thesis .
  qed
qed

lemma nat_digits_hd:
  "nat_digits n \<noteq> [] \<and> is_digit (hd (nat_digits n)) \<and> hd (nat_digits n) \<noteq> CHR ''-''
   \<and> ((hd (nat_digits n) = CHR ''0'') = (n = 0))"
proof (induction n rule: nat_digits.induct)
  case (1 n)
  show ?case
  proof (cases "n < 10")
    case True
    then have nd: "nat_digits n = [char_of (0x30 + n)]" by (simp add: nat_digits.simps [of n])
    show ?thesis unfolding nd using digit_char [OF True] by simp
  next
    case False
    have nd: "nat_digits n = nat_digits (n div 10) @ [char_of (0x30 + n mod 10)]"
      using False by (simp add: nat_digits.simps [of n])
    have "n div 10 \<noteq> 0" using False by simp
    with "1.IH" [OF False] False show ?thesis unfolding nd by auto
  qed
qed

lemma char_of_48: "char_of (48::nat) = CHR ''0''"
  unfolding byte_eq_iff by (simp add: byte_def)

lemma parse_int_part_nat_digits:
  assumes "ends_number sep"
  shows "parse_int_part (nat_digits n @ sep # rest) = Some (n, sep # rest)"
proof -
  obtain d ds where nd: "nat_digits n = d # ds"
    using nat_digits_hd [of n] by (cases "nat_digits n") auto
  have hd: "is_digit d" "(d = CHR ''0'') = (n = 0)"
    using nat_digits_hd [of n] nd by auto
  have sep: "parse_digits (sep # rest) a k = (a, k, sep # rest)" for a k
    using assms by (simp add: ends_number_def)
  show ?thesis
  proof (cases "n = 0")
    case True
    then have "nat_digits n = [CHR ''0'']" by (simp add: nat_digits.simps [of 0] char_of_48)
    then show ?thesis using True by (simp add: parse_int_part_def)
  next
    case False
    have "parse_digits (nat_digits n @ sep # rest) 0 0 = (n, length (nat_digits n), sep # rest)"
      by (simp only: parse_digits_nat_digits sep) simp
    then show ?thesis
      using False hd nd by (simp add: parse_int_part_def)
  qed
qed

lemma parse_number_nat:
  assumes "ends_number sep"
  shows "parse_number (nat_digits n @ sep # rest) = Some (JNumber (int n) 0, sep # rest)"
proof -
  obtain d ds where nd: "nat_digits n = d # ds"
    using nat_digits_hd [of n] by (cases "nat_digits n") auto
  have d: "d \<noteq> CHR ''-''" using nat_digits_hd [of n] nd by auto
  have f: "parse_frac_part (sep # rest) = Some (0, 0, sep # rest)"
    using assms by (simp add: parse_frac_part_def ends_number_def)
  have e: "parse_exp_part (sep # rest) = Some (0, sep # rest)"
    using assms by (simp add: parse_exp_part_def ends_number_def)
  have "parse_number ((d # ds) @ sep # rest) = Some (JNumber (int n) 0, sep # rest)"
    using d parse_int_part_nat_digits [OF assms, of n rest] f e
    by (simp add: parse_number_def nd)
  then show ?thesis by (simp add: nd)
qed

lemma parse_number_FormatInt:
  assumes "ends_number sep"
  shows "parse_number (FormatInt i @ sep # rest) = Some (JNumber i 0, sep # rest)"
proof (cases "i < 0")
  case False
  then show ?thesis
    using parse_number_nat [OF assms, of "nat i" rest] by (simp add: FormatInt_def)
next
  case True
  have f: "parse_frac_part (sep # rest) = Some (0, 0, sep # rest)"
    using assms by (simp add: parse_frac_part_def ends_number_def)
  have e: "parse_exp_part (sep # rest) = Some (0, sep # rest)"
    using assms by (simp add: parse_exp_part_def ends_number_def)
  show ?thesis
    using True parse_int_part_nat_digits [OF assms, of "nat (- i)" rest] f e
    by (simp add: FormatInt_def parse_number_def)
qed

lemma FormatInt_hd:
  "\<exists>c cs. FormatInt i = c # cs \<and> (c = CHR ''-'' \<or> is_digit c)"
proof (cases "i < 0")
  case True
  then show ?thesis by (simp add: FormatInt_def)
next
  case False
  obtain d ds where "nat_digits (nat i) = d # ds"
    using nat_digits_hd [of "nat i"] by (cases "nat_digits (nat i)") auto
  then show ?thesis using nat_digits_hd [of "nat i"] False by (auto simp: FormatInt_def)
qed

lemma digit_not_special:
  assumes "c = CHR ''-'' \<or> is_digit c"
  shows "\<not> is_ws c" "c \<noteq> CHR ''{''" "c \<noteq> CHR ''[''" "c \<noteq> DQ" "c \<noteq> CHR ''t''" "c \<noteq> CHR ''f''"
    "c \<noteq> CHR ''n''"
  using assms by (auto simp: is_digit_def is_ws_def DQ_def byte_def)

lemma skip_ws_Cons: "\<not> is_ws c \<Longrightarrow> skip_ws (c # cs) = c # cs"
  by (simp add: skip_ws_def)

lemma parse_value_FormatInt:
  assumes "ends_number sep"
  shows "parse_value (Suc k) (FormatInt i @ sep # rest) = Some (JNumber i 0, sep # rest)"
proof -
  obtain c cs where f: "FormatInt i = c # cs" and c: "c = CHR ''-'' \<or> is_digit c"
    using FormatInt_hd [of i] by auto
  have "parse_value (Suc k) ((c # cs) @ sep # rest) = parse_number ((c # cs) @ sep # rest)"
    using digit_not_special [OF c] c by (simp add: skip_ws_Cons)
  then show ?thesis
    using parse_number_FormatInt [OF assms, of i rest] by (simp add: f)
qed

lemma utf8_split_SomeD:
  assumes "utf8_split (c # cs) = Some (rb, rest)"
  shows "c # cs = rb @ rest" "\<exists>rb'. rb = c # rb'" "utf8_split (rb @ X) = Some (rb, X)"
    "0xC2 \<le> byte c"
proof -
  from assms show "c # cs = rb @ rest"
    by (auto simp: Let_def split: if_splits list.splits)
  from assms show "\<exists>rb'. rb = c # rb'"
    by (auto simp: Let_def split: if_splits list.splits)
  from assms show "utf8_split (rb @ X) = Some (rb, X)"
    by (auto simp: Let_def split: if_splits list.splits)
  from assms show "0xC2 \<le> byte c"
    by (auto simp: Let_def split: if_splits list.splits)
qed

lemma hex_digits_all: "list_all (\<lambda>k. hex_val (hex_digit k) = Some k) [0..<16]"
  by code_simp

lemma hex_val_hex_digit: "k < 16 \<Longrightarrow> hex_val (hex_digit k) = Some k"
  using hex_digits_all by (simp add: list_all_iff)

lemma utf8_encode_consts:
  "utf8_encode 0xFFFD = replacement"
  "utf8_encode 0x2028 = [CHR 0xE2, CHR 0x80, CHR 0xA8]"
  "utf8_encode 0x2029 = [CHR 0xE2, CHR 0x80, CHR 0xA9]"
  by (simp_all add: utf8_encode_def replacement_def byte_eq_iff byte_char_of) (simp_all add: byte_def)

lemma utf8_encode_ascii: "utf8_encode (byte c) = [c]" if "byte c < 0x80"
  using that by (simp add: utf8_encode_def char_of_byte)

lemma getu4_consts:
  "getu4 (BSL # CHR ''u'' # CHR ''f'' # CHR ''f'' # CHR ''f'' # CHR ''d'' # X) = Some 0xFFFD"
  "getu4 (BSL # CHR ''u'' # CHR ''2'' # CHR ''0'' # CHR ''2'' # CHR ''8'' # X) = Some 0x2028"
  "getu4 (BSL # CHR ''u'' # CHR ''2'' # CHR ''0'' # CHR ''2'' # CHR ''9'' # X) = Some 0x2029"
  by (simp_all add: getu4_def hex_val_def byte_def Let_def)

lemma getu4_byte:
  "getu4 (BSL # CHR ''u'' # CHR ''0'' # CHR ''0'' # hex_digit (byte c div 16) # hex_digit (byte c mod 16) # X)
     = Some (byte c)"
proof -
  have "byte c div 16 < 16" using byte_less [of c] by (simp add: less_mult_imp_div_less)
  then have h: "hex_val (hex_digit (byte c div 16)) = Some (byte c div 16)"
    by (rule hex_val_hex_digit)
  have l: "hex_val (hex_digit (byte c mod 16)) = Some (byte c mod 16)"
    by (rule hex_val_hex_digit) simp
  have z: "hex_val (CHR ''0'') = Some 0" by (simp add: hex_val_def byte_def)
  show ?thesis by (simp add: getu4_def h l z)
qed

lemma prepend_Some: "prepend xs (Some (s, r)) = Some (xs @ s, r)"
  by (simp add: prepend_def)

lemma special_bytes:
  "byte DQ = 0x22" "byte BSL = 0x5C" "DQ \<noteq> BSL" "BSL \<noteq> DQ"
  by (simp_all add: DQ_def BSL_def byte_def)

lemma unquote_u_escape:
  assumes "getu4 (BSL # CHR ''u'' # h1 # h2 # h3 # h4 # X) = Some rr" "rr < 0xD800 \<or> 0xDFFF < rr"
  shows "unquote (BSL # CHR ''u'' # h1 # h2 # h3 # h4 # X) = prepend (utf8_encode rr) (unquote X)"
  using assms by (auto simp: special_bytes)

lemma unquote_escape_ascii:
  assumes "byte c < 0x80" "\<not> htmlSafe c"
  shows "unquote (escape_ascii c @ X) = prepend [c] (unquote X)"
proof -
  consider "c = BSL \<or> c = DQ" | "c = CHR 0x08" | "c = CHR 0x0C" | "c = CHR 0x0A" | "c = CHR 0x0D"
    | "c = CHR 0x09"
    | "c \<noteq> BSL" "c \<noteq> DQ" "c \<noteq> CHR 0x08" "c \<noteq> CHR 0x0C" "c \<noteq> CHR 0x0A" "c \<noteq> CHR 0x0D" "c \<noteq> CHR 0x09"
    by blast
  then show ?thesis
  proof cases
    case 1
    then show ?thesis
      by (auto simp: escape_ascii_def simple_escape_def special_bytes DQ_def BSL_def)
  next
    case 2
    then show ?thesis
      by (simp add: escape_ascii_def simple_escape_def special_bytes DQ_def BSL_def)
  next
    case 3
    then show ?thesis
      by (simp add: escape_ascii_def simple_escape_def special_bytes DQ_def BSL_def)
  next
    case 4
    then show ?thesis
      by (simp add: escape_ascii_def simple_escape_def special_bytes DQ_def BSL_def)
  next
    case 5
    then show ?thesis
      by (simp add: escape_ascii_def simple_escape_def special_bytes DQ_def BSL_def)
  next
    case 6
    then show ?thesis
      by (simp add: escape_ascii_def simple_escape_def special_bytes DQ_def BSL_def)
  next
    case 7
    then have e: "escape_ascii c
                  = [BSL, CHR ''u'', CHR ''0'', CHR ''0'', hex_digit (byte c div 16), hex_digit (byte c mod 16)]"
      by (simp add: escape_ascii_def)
    have "unquote (BSL # CHR ''u'' # CHR ''0'' # CHR ''0'' # hex_digit (byte c div 16)
                     # hex_digit (byte c mod 16) # X)
          = prepend (utf8_encode (byte c)) (unquote X)"
      using assms(1) by (intro unquote_u_escape getu4_byte) simp
    then show ?thesis
      using assms(1) by (simp add: e utf8_encode_ascii)
  qed
qed

lemma unquote_plain:
  assumes "htmlSafe c"
  shows "unquote (c # X) = prepend [c] (unquote X)"
  using assms by (simp add: htmlSafe_def)

lemma unquote_rune:
  assumes "utf8_split (c # cs) = Some (rb, rest)"
  shows "unquote (rb @ X) = prepend rb (unquote X)"
proof -
  obtain rb' where rb: "rb = c # rb'" using utf8_split_SomeD(2) [OF assms] by blast
  have b: "0xC2 \<le> byte c" by (rule utf8_split_SomeD(4) [OF assms])
  have s: "utf8_split (c # rb' @ X) = Some (rb, X)"
    using utf8_split_SomeD(3) [OF assms, of X] rb by simp
  have n: "c \<noteq> DQ" "c \<noteq> BSL" using b by (auto simp: special_bytes)
  have "unquote (c # rb' @ X) = prepend rb (unquote X)"
    using b n by (subst unquote.simps) (simp add: s del: utf8_split.simps)
  then show ?thesis by (simp add: rb)
qed

lemma unquote_invalid:
  assumes "\<not> byte c < 0x80" "utf8_split (c # cs) = None"
  shows "unquote (c # cs) = prepend replacement (unquote cs)"
proof -
  have n: "c \<noteq> DQ" "c \<noteq> BSL" using assms(1) by (auto simp: special_bytes)
  show ?thesis
    using assms n by (subst unquote.simps) (simp del: utf8_split.simps)
qed

lemma unquote_escape: "unquote (escape s @ DQ # r) = Some (coerce_utf8 s, r)"
proof (induction s rule: escape.induct)
  case 1
  show ?case by simp
next
  case (2 c cs)
  show ?case
  proof (cases "byte c < 0x80")
    case True
    show ?thesis
    proof (cases "htmlSafe c")
      case safe: True
      have "unquote (escape (c # cs) @ DQ # r) = prepend [c] (unquote (escape cs @ DQ # r))"
        using True safe unquote_plain [OF safe] by simp
      also have "\<dots> = Some (coerce_utf8 (c # cs), r)"
        using "2.IH"(1) [OF True safe] True by (simp add: prepend_Some)
      finally show ?thesis .
    next
      case unsafe: False
      have "unquote (escape (c # cs) @ DQ # r) = prepend [c] (unquote (escape cs @ DQ # r))"
        using True unsafe unquote_escape_ascii [OF True unsafe] by simp
      also have "\<dots> = Some (coerce_utf8 (c # cs), r)"
        using "2.IH"(2) [OF True unsafe] True by (simp add: prepend_Some)
      finally show ?thesis .
    qed
  next
    case False
    show ?thesis
    proof (cases "utf8_split (c # cs)")
      case None
      have e: "escape (c # cs) = [BSL, CHR ''u'', CHR ''f'', CHR ''f'', CHR ''f'', CHR ''d''] @ escape cs"
        using False None by (simp del: utf8_split.simps)
      have "unquote (escape (c # cs) @ DQ # r) = prepend replacement (unquote (escape cs @ DQ # r))"
        unfolding e
        using unquote_u_escape [OF getu4_consts(1), of "escape cs @ DQ # r"]
        by (simp add: utf8_encode_consts)
      also have "\<dots> = Some (coerce_utf8 (c # cs), r)"
        using "2.IH"(3) [OF False None] False None
        by (simp add: prepend_Some replacement_def del: utf8_split.simps)
      finally show ?thesis .
    next
      case (Some x)
      obtain rb rest where x: "x = (rb, rest)" by (cases x)
      note sp = Some [unfolded x]
      note IH = "2.IH"(4) [OF False Some x [symmetric]]
      have co: "coerce_utf8 (c # cs) = rb @ coerce_utf8 rest"
        using False sp by (simp del: utf8_split.simps)
      consider (ls) "rb = [CHR 0xE2, CHR 0x80, CHR 0xA8]" | (ps) "rb = [CHR 0xE2, CHR 0x80, CHR 0xA9]"
        | (other) "rb \<noteq> [CHR 0xE2, CHR 0x80, CHR 0xA8]" "rb \<noteq> [CHR 0xE2, CHR 0x80, CHR 0xA9]"
        by blast
      then have "unquote (escape (c # cs) @ DQ # r) = prepend rb (unquote (escape rest @ DQ # r))"
      proof cases
        case ls
        have e: "escape (c # cs) = [BSL, CHR ''u'', CHR ''2'', CHR ''0'', CHR ''2'', CHR ''8''] @ escape rest"
          using False sp ls by (simp del: utf8_split.simps)
        show ?thesis
          unfolding e
          using unquote_u_escape [OF getu4_consts(2), of "escape rest @ DQ # r"]
          by (simp add: utf8_encode_consts ls)
      next
        case ps
        have e: "escape (c # cs) = [BSL, CHR ''u'', CHR ''2'', CHR ''0'', CHR ''2'', CHR ''9''] @ escape rest"
          using False sp ps by (simp del: utf8_split.simps)
        show ?thesis
          unfolding e
          using unquote_u_escape [OF getu4_consts(3), of "escape rest @ DQ # r"]
          by (simp add: utf8_encode_consts ps)
      next
        case other
        have e: "escape (c # cs) = rb @ escape rest"
          using False sp other by (simp del: utf8_split.simps)
        show ?thesis
          unfolding e using unquote_rune [OF sp, of "escape rest @ DQ # r"] by simp
      qed
      also have "\<dots> = Some (coerce_utf8 (c # cs), r)"
        unfolding co IH prepend_Some ..
      finally show ?thesis .
    qed
  qed
qed

lemma EncodeSegment_no_dot: "CHR ''.'' \<notin> set (EncodeSegment x)"
  using encode_raw_alphabet [of x] by (auto simp: EncodeSegment_raw encodeURL_def)

lemma header_roundtrip:
  "json_Unmarshal (json_Marshal [(''typ'', GoString ''JWT''), (''alg'', GoString ''HS256'')])
     = Some [(''alg'', JString ''HS256''), (''typ'', JString ''JWT'')]"
  by code_simp

lemma claims_text:
  "json_Marshal [(''usertkn'', GoString s), (''exp'', GoInt64 n)]
     = CHR ''{'' # DQ # ''exp'' @ DQ # CHR '':'' # FormatInt n
         @ CHR '','' # DQ # ''usertkn'' @ DQ # CHR '':'' # DQ # escape s @ [DQ, CHR ''}'']"
  by (simp add: json_Marshal_def sort_members_def json_string_def byte_def htmlSafe_def DQ_def BSL_def)

lemma ends_number_sep: "ends_number (CHR '','')" "ends_number (CHR ''}'')"
  by (simp_all add: ends_number_def is_digit_def byte_def)

lemma unquote_key:
  "unquote (''exp'' @ DQ # R) = Some (''exp'', R)"
  "unquote (''usertkn'' @ DQ # R) = Some (''usertkn'', R)"
proof -
  have e: "escape ''exp'' = ''exp''" "escape ''usertkn'' = ''usertkn''"
    by (simp_all add: byte_def htmlSafe_def DQ_def BSL_def)
  have c: "coerce_utf8 ''exp'' = ''exp''" "coerce_utf8 ''usertkn'' = ''usertkn''"
    by (simp_all add: byte_def)
  show "unquote (''exp'' @ DQ # R) = Some (''exp'', R)"
    using unquote_escape [of "''exp''" R] by (simp only: e c)
  show "unquote (''usertkn'' @ DQ # R) = Some (''usertkn'', R)"
    using unquote_escape [of "''usertkn''" R] by (simp only: e c)
qed

lemma not_ws: "\<not> is_ws DQ" "\<not> is_ws (CHR ''{'')" "\<not> is_ws (CHR ''}'')" "\<not> is_ws (CHR '':'')"
  "\<not> is_ws (CHR '','')"
  by (simp_all add: is_ws_def DQ_def)

lemma DQ_neq: "DQ \<noteq> CHR ''{''" "DQ \<noteq> CHR ''[''" "DQ \<noteq> CHR ''}''" "CHR ''{'' \<noteq> DQ"
  by (simp_all add: DQ_def)

lemma parse_value_string:
  "parse_value (Suc k) (DQ # escape s @ DQ # R) = Some (JString (coerce_utf8 s), R)"
  by (simp add: skip_ws_Cons not_ws unquote_escape DQ_neq del: unquote.simps)

lemma parse_claims:
  "parse_value (Suc (Suc (Suc (Suc k)))) (json_Marshal [(''usertkn'', GoString s), (''exp'', GoInt64 n)])
     = Some (JObject [(''exp'', JNumber n 0), (''usertkn'', JString (coerce_utf8 s))], [])"
proof -
  let ?v2 = "DQ # escape s @ DQ # [CHR ''}'']"
  let ?m2 = "DQ # ''usertkn'' @ DQ # CHR '':'' # ?v2"
  let ?v1 = "FormatInt n @ CHR '','' # ?m2"
  let ?m1 = "DQ # ''exp'' @ DQ # CHR '':'' # ?v1"
  have t: "json_Marshal [(''usertkn'', GoString s), (''exp'', GoInt64 n)] = CHR ''{'' # ?m1"
    by (simp add: claims_text)
  have v2: "parse_value (Suc k) ?v2 = Some (JString (coerce_utf8 s), [CHR ''}''])"
    by (rule parse_value_string)
  have m2: "parse_members (Suc (Suc k)) ?m2 [(''exp'', JNumber n 0)]
            = Some (JObject [(''exp'', JNumber n 0), (''usertkn'', JString (coerce_utf8 s))], [])"
    using unquote_key(2) [of "CHR '':'' # ?v2"] v2
    by (simp only: parse_members.simps list.case append_Cons append_Nil)
       (simp add: skip_ws_Cons not_ws del: parse_value.simps unquote.simps)
  have v1: "parse_value (Suc (Suc k)) ?v1 = Some (JNumber n 0, CHR '','' # ?m2)"
    by (rule parse_value_FormatInt [OF ends_number_sep(1)])
  have m1: "parse_members (Suc (Suc (Suc k))) ?m1 []
            = Some (JObject [(''exp'', JNumber n 0), (''usertkn'', JString (coerce_utf8 s))], [])"
    using unquote_key(1) [of "CHR '':'' # ?v1"] v1 m2
    by (simp only: parse_members.simps list.case append_Cons append_Nil)
       (simp add: skip_ws_Cons not_ws del: parse_value.simps parse_members.simps unquote.simps)
  show ?thesis
    unfolding t using m1
    by (simp add: skip_ws_Cons not_ws DQ_neq del: parse_members.simps unquote.simps)
qed

lemma decode_claims:
  "json_Decode (json_Marshal [(''usertkn'', GoString s), (''exp'', GoInt64 n)])
     = Some [(''exp'', JNumber n 0), (''usertkn'', JString (coerce_utf8 s))]"
proof -
  obtain k where "length (json_Marshal [(''usertkn'', GoString s), (''exp'', GoInt64 n)]) = Suc (Suc (Suc k))"
    by (simp add: claims_text)
  then show ?thesis
    using parse_claims [of k s n] by (simp add: json_Decode_def as_map_def)
qed

lemma CreateToken_parts:
  "CreateToken key now s
     = (issued_header @ CHR ''.'' # issued_payload now s @ CHR ''.'' # issued_signature key now s, None)"
  by (simp add: CreateToken_def SignedString_def SigningString_def Method_Sign_def method_mac_def
      Alg_def issued_header_def issued_payload_def issued_signature_def)

lemma issued_split:
  "split_dots (fst (CreateToken key now s))
     = [issued_header, issued_payload now s, issued_signature key now s]"
  unfolding CreateToken_parts fst_conv
  by (rule split_dots_three)
     (simp_all add: issued_header_def issued_payload_def issued_signature_def EncodeSegment_no_dot)

lemma lookup_alg: "lookup [(''alg'', JString ''HS256''), (''typ'', JString ''JWT'')] ''alg'' = Some (JString ''HS256'')"
  by (simp add: lookup_def)

lemma ParseUnverified_segments:
  assumes "split_dots t = [issued_header, issued_payload now s, sig]"
  shows "ParseUnverified t
           = Inr (\<lparr>Raw = t, Method = SigningMethodHS256,
                   Header = [(''alg'', JString ''HS256''), (''typ'', JString ''JWT'')],
                   Claims = [(''exp'', JNumber (now + 24 * 3600) 0), (''usertkn'', JString (coerce_utf8 s))],
                   Signature = [], TokenValid = False\<rparr>,
                  [issued_header, issued_payload now s, sig])"
proof -
  have h: "DecodeSegment issued_header
           = Some (json_Marshal [(''typ'', GoString ''JWT''), (''alg'', GoString ''HS256'')])"
    by (simp add: issued_header_def DecodeSegment_EncodeSegment)
  have p: "DecodeSegment (issued_payload now s)
           = Some (json_Marshal [(''usertkn'', GoString s), (''exp'', GoInt64 (now + 24 * 3600))])"
    by (simp add: issued_payload_def DecodeSegment_EncodeSegment)
  show ?thesis
    by (simp add: ParseUnverified_def assms h p header_roundtrip decode_claims lookup_alg
        GetSigningMethod_def)
qed

lemma issued_claims_Valid:
  "MapClaims_Valid now' [(''exp'', JNumber e 0), (''usertkn'', JString u)]
     = (if e = 0 \<or> now' \<le> e then {} else {ValidationErrorExpired})"
  by (simp add: MapClaims_Valid_def VerifyExpiresAt_def VerifyIssuedAt_def VerifyNotBefore_def
      lookup_def to_int64_def verifyExp_def)

lemma issued_claims_usertkn:
  "lookup [(''exp'', JNumber e 0), (''usertkn'', JString u)] ''usertkn'' = Some (JString u)"
  by (simp add: lookup_def)

lemma VerifyToken_segments:
  assumes "split_dots t = [issued_header, issued_payload now s, sig]"
  shows "VerifyToken key now' t =
     (if (now + 24 * 3600 = 0 \<or> now' \<le> now + 24 * 3600)
         \<and> DecodeSegment sig = Some (hmac sha256 64 key (issued_header @ CHR ''.'' # issued_payload now s))
      then Returns (coerce_utf8 s, None)
      else Returns ([], Some (ValidationError
             ((if now + 24 * 3600 = 0 \<or> now' \<le> now + 24 * 3600 then {} else {ValidationErrorExpired})
              \<union> (if DecodeSegment sig = Some (hmac sha256 64 key (issued_header @ CHR ''.'' # issued_payload now s))
                 then {} else {ValidationErrorSignatureInvalid})))))"
proof -
  have v: "Method_Verify SigningMethodHS256 (issued_header @ CHR ''.'' # issued_payload now s) sig key
           \<longleftrightarrow> DecodeSegment sig = Some (hmac sha256 64 key (issued_header @ CHR ''.'' # issued_payload now s))"
    by (cases "DecodeSegment sig") (simp_all add: Method_Verify_def method_mac_def)
  show ?thesis
    by (simp add: VerifyToken_def Parse_def ParseUnverified_segments [OF assms] issued_claims_Valid
        issued_claims_usertkn v Let_def insert_commute)
qed

lemma issued_signature_decodes:
  "DecodeSegment (issued_signature key now s)
     = Some (hmac sha256 64 key (issued_header @ CHR ''.'' # issued_payload now s))"
  by (simp add: issued_signature_def DecodeSegment_EncodeSegment)

lemma VerifyToken_CreateToken:
  "VerifyToken key now' (fst (CreateToken key now s)) =
     (if now + 24 * 3600 = 0 \<or> now' \<le> now + 24 * 3600
      then Returns (coerce_utf8 s, None)
      else Returns ([], Some (ValidationError {ValidationErrorExpired})))"
  by (simp add: VerifyToken_segments [OF issued_split] issued_signature_decodes)

lemma coerce_utf8_length: "length s \<le> length (coerce_utf8 s)"
proof (induction s rule: coerce_utf8.induct)
  case 1
  show ?case by simp
next
  case (2 c cs)
  show ?case
  proof (cases "byte c < 0x80")
    case True
    with "2.IH"(1) show ?thesis by simp
  next
    case False
    show ?thesis
    proof (cases "utf8_split (c # cs)")
      case None
      with "2.IH"(2) [OF False None] False show ?thesis by (simp del: utf8_split.simps)
    next
      case (Some x)
      obtain rb rest where x: "x = (rb, rest)" by (cases x)
      have "c # cs = rb @ rest" using utf8_split_SomeD(1) [OF Some [unfolded x]] .
      then have "length (c # cs) = length rb + length rest" by (metis length_append)
      with "2.IH"(3) [OF False Some x [symmetric]] False Some x show ?thesis
        by (simp del: utf8_split.simps)
    qed
  qed
qed

lemma coerce_utf8_valid: "utf8_ValidString s \<longleftrightarrow> coerce_utf8 s = s"
proof (induction s rule: coerce_utf8.induct)
  case 1
  show ?case by simp
next
  case (2 c cs)
  show ?case
  proof (cases "byte c < 0x80")
    case True
    with "2.IH"(1) show ?thesis by simp
  next
    case False
    show ?thesis
    proof (cases "utf8_split (c # cs)")
      case None
      have "length (coerce_utf8 (c # cs)) = 3 + length (coerce_utf8 cs)"
        using False None by (simp del: utf8_split.simps)
      then have "length (coerce_utf8 (c # cs)) \<noteq> length (c # cs)"
        using coerce_utf8_length [of cs] by simp
      then have "coerce_utf8 (c # cs) \<noteq> c # cs" by metis
      with False None show ?thesis by (simp del: utf8_split.simps coerce_utf8.simps)
    next
      case (Some x)
      obtain rb rest where x: "x = (rb, rest)" by (cases x)
      have e: "c # cs = rb @ rest" using utf8_split_SomeD(1) [OF Some [unfolded x]] .
      have "coerce_utf8 (c # cs) = rb @ coerce_utf8 rest"
        using False Some x by (simp del: utf8_split.simps)
      then have "coerce_utf8 (c # cs) = c # cs \<longleftrightarrow> coerce_utf8 rest = rest"
        unfolding e by simp
      with "2.IH"(3) [OF False Some x [symmetric]] False Some x show ?thesis
        by (simp del: utf8_split.simps coerce_utf8.simps)
    qed
  qed
qed

text \<open>
  Claim C2, as stated, fails for a subject identifier that is not valid UTF-8: a Go
  string is any sequence of bytes, and \<^verbatim>\<open>json.Marshal\<close> writes a byte that is not valid UTF-8
  as U+FFFD. For the one-byte identifier \<open>0xFF\<close>, issuance succeeds and verification at
  the same instant returns the three bytes of U+FFFD, not the identifier.
\<close>

theorem C2_counterexample:
  "snd (CreateToken ''secret'' 1700000000 [CHR 0xFF]) = None
   \<and> VerifyToken ''secret'' 1700000000 (fst (CreateToken ''secret'' 1700000000 [CHR 0xFF]))
       = Returns ([CHR 0xEF, CHR 0xBF, CHR 0xBD], None)
   \<and> VerifyToken ''secret'' 1700000000 (fst (CreateToken ''secret'' 1700000000 [CHR 0xFF]))
       \<noteq> Returns ([CHR 0xFF], None)"
proof -
  have c: "coerce_utf8 [CHR 0xFF] = [CHR 0xEF, CHR 0xBF, CHR 0xBD]"
    by (simp add: byte_def)
  have s: "snd (CreateToken ''secret'' 1700000000 [CHR 0xFF]) = None"
    by (simp add: CreateToken_parts)
  have v: "VerifyToken ''secret'' 1700000000 (fst (CreateToken ''secret'' 1700000000 [CHR 0xFF]))
           = Returns (coerce_utf8 [CHR 0xFF], None)"
    by (simp add: VerifyToken_CreateToken del: coerce_utf8.simps)
  show ?thesis
    unfolding v c using s by simp
qed

text \<open>
  Claim C2, amended. For every subject identifier that is valid UTF-8 (empty or not),
  every key and every clock, issuance returns no error, and verifying the credential at
  any instant up to the expiry (issue time plus 24 hours), so also immediately after
  issuance, returns exactly the identifier and no error. For any identifier at all the
  result is the identifier coerced to valid UTF-8, which is the identifier itself exactly
  when it is valid UTF-8.
\<close>

theorem C2_round_trip:
  assumes "now' \<le> now + 24 * 3600"
  shows "snd (CreateToken key now usertkn) = None
       \<and> VerifyToken key now' (fst (CreateToken key now usertkn)) = Returns (coerce_utf8 usertkn, None)
       \<and> (utf8_ValidString usertkn
            \<longrightarrow> VerifyToken key now' (fst (CreateToken key now usertkn)) = Returns (usertkn, None))
       \<and> (VerifyToken key now' (fst (CreateToken key now usertkn)) = Returns (usertkn, None)
            \<longrightarrow> utf8_ValidString usertkn)"
proof -
  have s: "snd (CreateToken key now usertkn) = None"
    by (simp add: CreateToken_parts)
  show ?thesis
    using assms by (simp add: VerifyToken_CreateToken s coerce_utf8_valid del: coerce_utf8.simps)
qed

theorem C2_round_trip_witness:
  "(1700000000::int) \<le> 1700000000 + 24 * 3600
   \<and> utf8_ValidString ''u-42''
   \<and> snd (CreateToken ''secret'' 1700000000 ''u-42'') = None
   \<and> VerifyToken ''secret'' 1700000000 (fst (CreateToken ''secret'' 1700000000 ''u-42''))
       = Returns (''u-42'', None)"
proof -
  have h: "(1700000000::int) \<le> 1700000000 + 24 * 3600" by simp
  have v: "utf8_ValidString ''u-42''" by (simp add: byte_def)
  show ?thesis
    using C2_round_trip [OF h, of "''secret''" "''u-42''"] h v by blast
qed





lemma exp_only_text:
  "json_Marshal [(''exp'', GoInt64 n)] = CHR ''{'' # DQ # ''exp'' @ DQ # CHR '':'' # FormatInt n @ [CHR ''}'']"
  by (simp add: json_Marshal_def sort_members_def json_string_def byte_def htmlSafe_def DQ_def BSL_def)

lemma parse_exp_only:
  "parse_value (Suc (Suc (Suc k))) (json_Marshal [(''exp'', GoInt64 n)])
     = Some (JObject [(''exp'', JNumber n 0)], [])"
proof -
  let ?v1 = "FormatInt n @ [CHR ''}'']"
  let ?m1 = "DQ # ''exp'' @ DQ # CHR '':'' # ?v1"
  have t: "json_Marshal [(''exp'', GoInt64 n)] = CHR ''{'' # ?m1"
    by (simp add: exp_only_text)
  have v1: "parse_value (Suc k) ?v1 = Some (JNumber n 0, [CHR ''}''])"
    by (rule parse_value_FormatInt [OF ends_number_sep(2)])
  have m1: "parse_members (Suc (Suc k)) ?m1 [] = Some (JObject [(''exp'', JNumber n 0)], [])"
    using unquote_key(1) [of "CHR '':'' # ?v1"] v1
    by (simp only: parse_members.simps list.case append_Cons append_Nil)
       (simp add: skip_ws_Cons not_ws del: parse_value.simps parse_members.simps unquote.simps)
  show ?thesis
    unfolding t using m1
    by (simp add: skip_ws_Cons not_ws DQ_neq del: parse_members.simps unquote.simps)
qed

lemma decode_exp_only:
  "json_Decode (json_Marshal [(''exp'', GoInt64 n)]) = Some [(''exp'', JNumber n 0)]"
proof -
  obtain k where "length (json_Marshal [(''exp'', GoInt64 n)]) = Suc (Suc k)"
    by (simp add: exp_only_text)
  then show ?thesis
    using parse_exp_only [of k n] by (simp add: json_Decode_def as_map_def)
qed

lemma token_without_subject_parts:
  "token_without_subject key exp
     = issued_header @ CHR ''.'' # EncodeSegment (json_Marshal [(''exp'', GoInt64 exp)])
       @ CHR ''.'' # EncodeSegment (hmac sha256 64 key
            (issued_header @ CHR ''.'' # EncodeSegment (json_Marshal [(''exp'', GoInt64 exp)])))"
  by (simp add: token_without_subject_def SignedString_def SigningString_def Method_Sign_def
      method_mac_def Alg_def issued_header_def)

lemma Parse_token_without_subject:
  assumes "exp = 0 \<or> now \<le> exp"
  shows "\<exists>token. Parse now key (token_without_subject key exp) = Inr token
           \<and> Claims token = [(''exp'', JNumber exp 0)]"
proof -
  let ?p = "EncodeSegment (json_Marshal [(''exp'', GoInt64 exp)])"
  let ?s = "EncodeSegment (hmac sha256 64 key (issued_header @ CHR ''.'' # ?p))"
  have sp: "split_dots (token_without_subject key exp) = [issued_header, ?p, ?s]"
    unfolding token_without_subject_parts
    by (rule split_dots_three) (simp_all add: issued_header_def EncodeSegment_no_dot)
  have h: "DecodeSegment issued_header
           = Some (json_Marshal [(''typ'', GoString ''JWT''), (''alg'', GoString ''HS256'')])"
    by (simp add: issued_header_def DecodeSegment_EncodeSegment)
  have pu: "ParseUnverified (token_without_subject key exp)
            = Inr (\<lparr>Raw = token_without_subject key exp, Method = SigningMethodHS256,
                    Header = [(''alg'', JString ''HS256''), (''typ'', JString ''JWT'')],
                    Claims = [(''exp'', JNumber exp 0)], Signature = [], TokenValid = False\<rparr>,
                   [issued_header, ?p, ?s])"
    by (simp add: ParseUnverified_def sp h DecodeSegment_EncodeSegment header_roundtrip
        decode_exp_only lookup_alg GetSigningMethod_def)
  have cv: "MapClaims_Valid now [(''exp'', JNumber exp 0)] = {}"
    using assms
    by (auto simp: MapClaims_Valid_def VerifyExpiresAt_def VerifyIssuedAt_def VerifyNotBefore_def
        lookup_def to_int64_def verifyExp_def)
  have mv: "Method_Verify SigningMethodHS256 (issued_header @ CHR ''.'' # ?p) ?s key"
    by (simp add: Method_Verify_def method_mac_def DecodeSegment_EncodeSegment)
  show ?thesis
    by (simp add: Parse_def pu cv mv Let_def)
qed

text \<open>
  Claim C6 against the code. Whenever a credential string passes \<^verbatim>\<open>jwt.Parse\<close> (it parses,
  its signature is valid and its claims are unexpired) and its subject claim is absent or
  is not a string, \<open>VerifyToken\<close> panics in the type assertion
  \<^verbatim>\<open>claims["usertkn"].(string)\<close>: it returns nothing, neither a subject nor an error.
\<close>

theorem C6_missing_subject_panics:
  assumes "Parse now key t = Inr token"
    and "\<forall>s. lookup (Claims token) ''usertkn'' \<noteq> Some (JString s)"
  shows "(\<exists>msg. VerifyToken key now t = Panics msg) \<and> (\<forall>r. VerifyToken key now t \<noteq> Returns r)"
proof -
  have v: "TokenValid token"
    using assms(1) by (auto simp: Parse_def Let_def split: sum.splits prod.splits if_splits)
  show ?thesis
  proof (cases "lookup (Claims token) ''usertkn''")
    case None
    with v assms(1) show ?thesis by (simp add: VerifyToken_def)
  next
    case (Some x)
    with assms(2) have "\<forall>s. x \<noteq> JString s" by simp
    with Some v assms(1) show ?thesis by (cases x) (simp_all add: VerifyToken_def)
  qed
qed

theorem C6_missing_subject_panics_witness:
  "(\<exists>token. Parse 1700000000 ''secret'' (token_without_subject ''secret'' 1700086400) = Inr token
      \<and> Claims token = [(''exp'', JNumber 1700086400 0)])
   \<and> VerifyToken ''secret'' 1700000000 (token_without_subject ''secret'' 1700086400)
       = Panics ''interface conversion: interface {} is nil, not string''"
proof -
  have e: "(1700086400::int) = 0 \<or> 1700000000 \<le> (1700086400::int)" by simp
  from Parse_token_without_subject [OF e, of "''secret''"]
  obtain token where p: "Parse 1700000000 ''secret'' (token_without_subject ''secret'' 1700086400) = Inr token"
    and c: "Claims token = [(''exp'', JNumber 1700086400 0)]" by blast
  have l: "\<forall>s. lookup (Claims token) ''usertkn'' \<noteq> Some (JString s)"
    by (simp add: c lookup_def)
  from C6_missing_subject_panics [OF p l]
  obtain msg where m: "VerifyToken ''secret'' 1700000000 (token_without_subject ''secret'' 1700086400) = Panics msg"
    by blast
  have n: "lookup (Claims token) ''usertkn'' = None" by (simp add: c lookup_def)
  have t: "TokenValid token"
    using p by (auto simp: Parse_def Let_def split: sum.splits prod.splits if_splits)
  have "VerifyToken ''secret'' 1700000000 (token_without_subject ''secret'' 1700086400)
        = Panics ''interface conversion: interface {} is nil, not string''"
    using p n t by (simp add: VerifyToken_def)
  with p c show ?thesis by blast
qed

end
